theory Spec2Isabelle
  imports Complex_Main "HOL-Library.Log_Nat"
begin

section \<open>CloudClient: the cloud storage client of the recorder\<close>

text \<open>
  A shallow embedding of \<^verbatim>\<open>src/storage/CloudClient.ts\<close>. Every network call, file
  system call and clock reading of the class is an input of the model (the record
  \<open>env\<close>); every request the class issues, every value it hands to the progress
  callback, every event it emits and every \<^verbatim>\<open>console.error\<close> line is an entry of the
  trace the model returns. \<^verbatim>\<open>console.info\<close> and \<^verbatim>\<open>console.debug\<close> lines and the
  duration they print are left out of the trace.
\<close>

subsection \<open>Strings\<close>

text \<open>\<^verbatim>\<open>String.prototype.startsWith\<close>, \<^verbatim>\<open>endsWith\<close> and \<^verbatim>\<open>includes\<close>.\<close>

fun startsWith :: "string \<Rightarrow> string \<Rightarrow> bool" where
  "startsWith s [] = True"
| "startsWith [] (c # t) = False"
| "startsWith (a # s) (c # t) = (a = c \<and> startsWith s t)"

definition endsWith :: "string \<Rightarrow> string \<Rightarrow> bool" where
  "endsWith s t = startsWith (rev s) (rev t)"


text \<open>\<^verbatim>\<open>etag.replaceAll('"', '')\<close>: every double quote character is removed.\<close>

definition replaceAll_quotes :: "string \<Rightarrow> string" where
  "replaceAll_quotes s = filter (\<lambda>c. c \<noteq> CHR 0x22) s"

text \<open>\<^verbatim>\<open>Number.prototype.toString\<close> on an integer: its decimal numeral.\<close>

definition digitChar :: "nat \<Rightarrow> char" where
  "digitChar d = ''0123456789'' ! d"

function natToString :: "nat \<Rightarrow> string" where
  "natToString n = (if n < 10 then [digitChar n] else natToString (n div 10) @ [digitChar (n mod 10)])"
  by pat_completeness auto
termination
  by (relation "measure (\<lambda>n. n)") auto

declare natToString.simps [simp del]

definition toString :: "int \<Rightarrow> string" where
  "toString i = (if i < 0 then CHR ''-'' # natToString (nat (- i)) else natToString (nat i))"

subsection \<open>Errors, responses, the environment, the trace\<close>

text \<open>
  \<open>Error m\<close> is \<^verbatim>\<open>throw new Error(m)\<close> of the class itself. \<open>Rejection s\<close> is a promise
  of axios or of the file system that was rejected, with \<open>s\<close> what \<^verbatim>\<open>String(error)\<close>
  gives for it. The environment answers a request with a rejection when the transport
  fails, and with the response, whatever its status, otherwise.
\<close>

datatype exn = Error string | Rejection string


text \<open>
  The projections of an axios response that the class reads: \<^verbatim>\<open>status\<close>, \<^verbatim>\<open>data\<close>
  (the payload as text, which is what \<^verbatim>\<open>data.toString()\<close> and the log show),
  \<^verbatim>\<open>data.signed\<close>, \<^verbatim>\<open>data.urls\<close>, \<^verbatim>\<open>data.size\<close> and \<^verbatim>\<open>headers.etag\<close>.
\<close>

record response =
  status :: nat
  data :: string
  data_signed :: string
  data_urls :: "string list"
  data_size :: nat
  headers_etag :: "string option"

text \<open>
  Calls made with \<^verbatim>\<open>validateStatus: () => true\<close> hand every response to the caller.
  The calls made without it (\<^verbatim>\<open>getMtime\<close>, \<^verbatim>\<open>updateLastMod\<close>, \<^verbatim>\<open>delete\<close> and the
  two requests of \<^verbatim>\<open>getAsFile\<close>) go through the default of axios: a response with a
  status outside 200..299 is turned into a rejection, whose message names the status and
  nothing of the response body.
\<close>

definition axiosDefault :: "exn + response \<Rightarrow> exn + response" where
  "axiosDefault outcome =
     (case outcome of
        Inl err \<Rightarrow> Inl err
      | Inr rsp \<Rightarrow>
          if 200 \<le> status rsp \<and> status rsp < 300 then Inr rsp
          else Inl (Rejection (''AxiosError: Request failed with status code ''
                               @ natToString (status rsp))))"

text \<open>
  An upload or download request also delivers progress events while it runs; the model
  receives the \<^verbatim>\<open>event.loaded\<close> value of each, in order, with the outcome. The progress
  callback is taken to return. \<open>listeners\<close> is what \<^verbatim>\<open>this.emit\<close> meets: \<open>None\<close> when
  every listener of the event returns (or there is none), the exception when one throws,
  which \<^verbatim>\<open>emit\<close> passes on to its caller.
\<close>

record env =
  basename :: "string \<Rightarrow> string"
  stat :: "string \<Rightarrow> exn + nat"
  getTime :: int
  mtime_get :: "exn + response"
  mtime_post :: "string \<Rightarrow> exn + response"
  object_delete :: "string \<Rightarrow> exn + response"
  sign_get :: "string \<Rightarrow> nat \<Rightarrow> exn + response"
  create_get :: "string \<Rightarrow> nat \<Rightarrow> exn + response"
  complete_post :: "string \<Rightarrow> string list \<Rightarrow> exn + response"
  put :: "string \<Rightarrow> nat list \<times> (exn + response)"
  part_put :: "nat \<Rightarrow> string \<Rightarrow> nat list \<times> (exn + response)"
  size_get :: "string \<Rightarrow> exn + response"
  object_get :: "string \<Rightarrow> exn + response \<times> nat list \<times> (exn + unit)"
  listeners :: "string \<Rightarrow> exn option"

text \<open>
  The trace. \<open>PutObject url range len type\<close> is an \<^verbatim>\<open>axios.put\<close> of a read stream of
  the file to a signed URL: \<open>range\<close> holds the \<^verbatim>\<open>start\<close> and \<^verbatim>\<open>end\<close> options given to
  \<^verbatim>\<open>fs.createReadStream\<close> (\<open>None\<close> when the whole file is streamed), \<open>len\<close> and \<open>type\<close>
  are the Content-Length and Content-Type headers. \<open>PutBuffer\<close> is the PUT of an
  in-memory buffer. \<open>Progress v\<close> is a call of the progress callback; \<open>v\<close> is \<open>None\<close>
  when the number passed is not finite (\<^verbatim>\<open>NaN\<close> or an infinity).
\<close>

datatype event =
    Stat string
  | SignPutUrl string nat
  | CreateMultiPartUpload string nat
  | CompleteMultiPartUpload string "string list"
  | PutObject string "(nat \<times> nat) option" nat string
  | PutBuffer string string nat string
  | Progress "int option"
  | GetSize string
  | GetObject string
  | WriteFile string string
  | DeleteObject string
  | GetMtime
  | PostMtime string
  | Emit string
  | ConsoleError "string list"

text \<open>The fields of the class that the modelled methods read or write.\<close>

record client =
  bucket :: string
  bucketLastMod :: string

subsection \<open>The change detector\<close>

definition getMtime :: "env \<Rightarrow> (exn + string) \<times> event list" where
  "getMtime e =
     (case axiosDefault (mtime_get e) of
        Inl err \<Rightarrow> (Inl err, [GetMtime])
      | Inr rsp \<Rightarrow> (Inr (data rsp), [GetMtime]))"

definition updateLastMod :: "env \<Rightarrow> client \<Rightarrow> (exn + unit) \<times> client \<times> event list" where
  "updateLastMod e c =
     (let mtime = toString (getTime e);
          c' = c\<lparr>bucketLastMod := mtime\<rparr>
      in case axiosDefault (mtime_post e mtime) of
           Inl err \<Rightarrow> (Inl err, c', [PostMtime mtime])
         | Inr rsp \<Rightarrow> (Inr (), c', [PostMtime mtime]))"

definition checkForUpdate :: "env \<Rightarrow> client \<Rightarrow> (exn + unit) \<times> client \<times> event list" where
  "checkForUpdate e c =
     (case getMtime e of
        (Inl err, tr) \<Rightarrow> (Inl err, c, tr)
      | (Inr mtime, tr) \<Rightarrow>
          if mtime \<noteq> bucketLastMod c
          then (case listeners e ''change'' of
                  Some err \<Rightarrow> (Inl err, c, tr @ [Emit ''change''])
                | None \<Rightarrow> (Inr (), c\<lparr>bucketLastMod := mtime\<rparr>, tr @ [Emit ''change'']))
          else (Inr (), c, tr))"


subsection \<open>Numbers\<close>

text \<open>
  The numbers of the program are IEEE binary64 values. A finite one is modelled by the
  rational it denotes, and \<open>fl\<close> rounds a rational to the nearest binary64 value, ties to
  the even significand, as every arithmetic operation of the language does with its exact
  result. The exponent range is not modelled: the quantities below are byte counts and
  percentages, far from overflow and underflow. A result that is not finite (a division
  by zero gives \<^verbatim>\<open>NaN\<close> or an infinity) is \<open>None\<close>. Byte counts are integers below
  \<open>2 ^ 53\<close> and are binary64 values themselves; where one enters the arithmetic it is
  converted with \<open>of_nat\<close>.
\<close>

definition pow2 :: "int \<Rightarrow> rat" where
  "pow2 k = (if 0 \<le> k then 2 ^ nat k else 1 / 2 ^ nat (- k))"

definition ilog2 :: "rat \<Rightarrow> int" where
  "ilog2 x =
     (case quotient_of x of (p, q) \<Rightarrow>
        let d = bitlen p - bitlen q in if pow2 d \<le> x then d else d - 1)"

definition roundHalfEven :: "rat \<Rightarrow> int" where
  "roundHalfEven x =
     (let f = \<lfloor>x\<rfloor>; r = x - of_int f
      in if r < 1 / 2 then f else if 1 / 2 < r then f + 1 else if even f then f else f + 1)"

definition fl :: "rat \<Rightarrow> rat" where
  "fl x =
     (if x = 0 then 0
      else let u = pow2 (ilog2 \<bar>x\<bar> - 52)
           in sgn x * of_int (roundHalfEven (\<bar>x\<bar> / u)) * u)"

definition num_mul :: "rat \<Rightarrow> rat \<Rightarrow> rat" where
  "num_mul x y = fl (x * y)"

definition num_add :: "rat \<Rightarrow> rat \<Rightarrow> rat" where
  "num_add x y = fl (x + y)"

definition num_div :: "rat \<Rightarrow> rat \<Rightarrow> rat option" where
  "num_div x y = (if y = 0 then None else Some (fl (x / y)))"

text \<open>\<^verbatim>\<open>Math.round\<close>: the nearest integer, a tie going up.\<close>

definition Math_round :: "rat option \<Rightarrow> int option" where
  "Math_round v = map_option (\<lambda>x. \<lfloor>x + 1 / 2\<rfloor>) v"

text \<open>
  \<^verbatim>\<open>Math.round((100 * n) / sz)\<close>, the expression of the progress callbacks of
  \<^verbatim>\<open>getAsFile\<close> and \<^verbatim>\<open>doSinglePartUpload\<close> (with \<open>n\<close> the \<^verbatim>\<open>event.loaded\<close>) and of
  the end of each round of the loop of \<^verbatim>\<open>doMultiPartUpload\<close> (with \<open>n\<close> the offset).
\<close>

definition roundedPercent :: "rat \<Rightarrow> rat \<Rightarrow> int option" where
  "roundedPercent sz n = Math_round (num_div (num_mul 100 n) sz)"

text \<open>The \<^verbatim>\<open>onUploadProgress\<close> handler of one part of \<^verbatim>\<open>doMultiPartUpload\<close>.\<close>

definition partProgress :: "rat \<Rightarrow> rat \<Rightarrow> rat \<Rightarrow> rat \<Rightarrow> int option" where
  "partProgress part numParts bytes loaded =
     Math_round
       (Option.bind (num_div part numParts) (\<lambda>q.
        Option.bind (num_div loaded bytes) (\<lambda>r.
        Option.bind (num_div 1 numParts) (\<lambda>w.
          let previous = num_mul 100 q;
              current = num_mul 100 r;
              normalized = num_mul w current
          in Some (num_add previous normalized)))))"

subsection \<open>Uploads and downloads\<close>

text \<open>Sequencing of two steps that may throw, the second after the first has returned.\<close>

definition andThen ::
  "(exn + 'a) \<times> event list \<Rightarrow> ('a \<Rightarrow> (exn + 'b) \<times> event list) \<Rightarrow> (exn + 'b) \<times> event list" where
  "andThen m f =
     (case m of
        (Inl err, tr) \<Rightarrow> (Inl err, tr)
      | (Inr x, tr) \<Rightarrow> (case f x of (r, tr') \<Rightarrow> (r, tr @ tr')))"

definition fs_stat :: "env \<Rightarrow> string \<Rightarrow> (exn + nat) \<times> event list" where
  "fs_stat e file = (stat e file, [Stat file])"

definition getContentType :: "string \<Rightarrow> (exn + string) \<times> event list" where
  "getContentType key =
     (if endsWith key ''.mp4'' then (Inr ''video/mp4'', [])
      else if endsWith key ''.png'' then (Inr ''image/png'', [])
      else (Inl (Error ''Tried to upload invalid file type''),
            [ConsoleError [''[CloudClient] Tried to upload invalid file type'', key]]))"

definition signPutUrl :: "env \<Rightarrow> string \<Rightarrow> nat \<Rightarrow> (exn + string) \<times> event list" where
  "signPutUrl e key len =
     (case sign_get e key len of
        Inl err \<Rightarrow> (Inl err, [SignPutUrl key len])
      | Inr rsp \<Rightarrow>
          if status rsp \<noteq> 200
          then (Inl (Error ''Failed to get signed upload request''),
                [SignPutUrl key len,
                 ConsoleError [''[CloudClient] Failed to get signed upload request'',
                               natToString (status rsp), data rsp]])
          else (Inr (data_signed rsp), [SignPutUrl key len]))"

definition createMultiPartUpload :: "env \<Rightarrow> string \<Rightarrow> nat \<Rightarrow> (exn + response) \<times> event list" where
  "createMultiPartUpload e key len =
     (case create_get e key len of
        Inl err \<Rightarrow> (Inl err, [CreateMultiPartUpload key len])
      | Inr rsp \<Rightarrow>
          if status rsp \<noteq> 200
          then (Inl (Error ''Failed to get signed multipart upload request''),
                [CreateMultiPartUpload key len,
                 ConsoleError [''[CloudClient] Failed to get signed multipart upload request'',
                               natToString (status rsp), data rsp]])
          else (Inr rsp, [CreateMultiPartUpload key len]))"

definition completeMultiPartUpload ::
  "env \<Rightarrow> string \<Rightarrow> string list \<Rightarrow> (exn + unit) \<times> event list" where
  "completeMultiPartUpload e key etags =
     (case complete_post e key etags of
        Inl err \<Rightarrow> (Inl err, [CompleteMultiPartUpload key etags])
      | Inr rsp \<Rightarrow>
          if status rsp \<noteq> 200
          then (Inl (Error ''Failed to complete multipart upload''),
                [CompleteMultiPartUpload key etags,
                 ConsoleError [''[CloudClient] Failed to complete multipart upload'',
                               natToString (status rsp), data rsp]])
          else (Inr (), [CompleteMultiPartUpload key etags]))"

definition doSinglePartUpload :: "env \<Rightarrow> string \<Rightarrow> (exn + unit) \<times> event list" where
  "doSinglePartUpload e file =
     (let key = basename e file in
      andThen (fs_stat e file) (\<lambda>sz.
      andThen (getContentType key) (\<lambda>contentType.
      andThen (signPutUrl e key sz) (\<lambda>signedUrl.
        let loaded = fst (put e signedUrl);
            tr = PutObject signedUrl None sz contentType
                 # map (\<lambda>l. Progress (roundedPercent (of_nat sz) (of_nat l))) loaded
        in (case snd (put e signedUrl) of
              Inl err \<Rightarrow> (Inl err, tr)
            | Inr rsp \<Rightarrow>
                if status rsp \<ge> 400
                then (Inl (Error ''Uploading a file to the cloud failed''),
                      tr @ [ConsoleError [''[CloudClient] File upload failed'', key,
                                          natToString (status rsp), data rsp]])
                else (Inr (), tr))))))"

text \<open>
  \<^verbatim>\<open>const partSizeBytes = 1 * 1024 ** 3\<close>, and one round of the loop of
  \<^verbatim>\<open>doMultiPartUpload\<close>, up to and including \<^verbatim>\<open>etag.replaceAll\<close>: it returns the
  token of the part.
\<close>

definition partSizeBytes :: nat where
  "partSizeBytes = 1 * 1024 ^ 3"

definition partBytes :: "nat \<Rightarrow> nat" where
  "partBytes remaining = (if remaining > partSizeBytes then partSizeBytes else remaining)"

definition uploadPart ::
  "env \<Rightarrow> string \<Rightarrow> string \<Rightarrow> nat \<Rightarrow> string \<Rightarrow> nat \<Rightarrow> nat \<Rightarrow> nat \<Rightarrow> (exn + string) \<times> event list" where
  "uploadPart e key contentType numParts url part offset remaining =
     (let bytes = partBytes remaining;
          loaded = fst (part_put e part url);
          tr = PutObject url (Some (offset, offset + bytes)) bytes contentType
               # map (\<lambda>l. Progress (partProgress (of_nat part) (of_nat numParts) (of_nat bytes)
                                     (of_nat l))) loaded
      in (case snd (part_put e part url) of
            Inl err \<Rightarrow> (Inl err, tr)
          | Inr rsp \<Rightarrow>
              if status rsp \<ge> 400
              then (Inl (Error ''Multipart upload failed''),
                    tr @ [ConsoleError [''[CloudClient] Multipart upload failed'', key,
                                        natToString (status rsp), data rsp]])
              else (case headers_etag rsp of
                      None \<Rightarrow>
                        (Inl (Error ''Multipart upload failed''),
                         tr @ [ConsoleError [''[CloudClient] No etag in response headers'', key]])
                    | Some etag \<Rightarrow>
                        if etag = []
                        then (Inl (Error ''Multipart upload failed''),
                              tr @ [ConsoleError [''[CloudClient] No etag in response headers'', key]])
                        else (Inr (replaceAll_quotes etag), tr))))"

text \<open>
  The loop \<^verbatim>\<open>for (let part = 0; part < numParts; part++)\<close>: the first list is
  \<^verbatim>\<open>urls\<close> from index \<open>part\<close> on, and \<open>offset\<close>, \<open>remaining\<close> and \<open>etags\<close> are the
  variables of the source. It returns the tokens collected.
\<close>

fun uploadParts ::
  "env \<Rightarrow> string \<Rightarrow> string \<Rightarrow> nat \<Rightarrow> nat \<Rightarrow> string list \<Rightarrow> nat \<Rightarrow> nat \<Rightarrow> nat \<Rightarrow> string list
   \<Rightarrow> (exn + string list) \<times> event list" where
  "uploadParts e key contentType sz numParts [] part offset remaining etags = (Inr etags, [])"
| "uploadParts e key contentType sz numParts (url # rest) part offset remaining etags =
     andThen (uploadPart e key contentType numParts url part offset remaining) (\<lambda>etagNoQuotes.
     andThen (Inr (), [Progress (roundedPercent (of_nat sz)
                                  (of_nat (offset + partBytes remaining)))]) (\<lambda>_.
       uploadParts e key contentType sz numParts rest (Suc part)
         (offset + partBytes remaining) (remaining - partBytes remaining)
         (etags @ [etagNoQuotes])))"

definition doMultiPartUpload :: "env \<Rightarrow> string \<Rightarrow> (exn + unit) \<times> event list" where
  "doMultiPartUpload e file =
     (let key = basename e file in
      andThen (fs_stat e file) (\<lambda>sz.
      andThen (getContentType key) (\<lambda>contentType.
      andThen (createMultiPartUpload e key sz) (\<lambda>signedMultipartUpload.
        let urls = data_urls signedMultipartUpload in
        andThen (uploadParts e key contentType sz (length urls) urls 0 0 sz []) (\<lambda>etags.
          completeMultiPartUpload e key etags)))))"

text \<open>
  \<^verbatim>\<open>const sizeThresholdBytes = 4.9 * 1024 ** 3\<close>: the literal \<^verbatim>\<open>4.9\<close> is the binary64
  value nearest to 49/10.
\<close>

definition sizeThresholdBytes :: rat where
  "sizeThresholdBytes = num_mul (fl (49 / 10)) (1024 ^ 3)"

definition thenUpdateLastMod ::
  "env \<Rightarrow> client \<Rightarrow> (exn + unit) \<times> event list \<Rightarrow> (exn + unit) \<times> client \<times> event list" where
  "thenUpdateLastMod e c m =
     (case m of
        (Inl err, tr) \<Rightarrow> (Inl err, c, tr)
      | (Inr _, tr) \<Rightarrow> (case updateLastMod e c of (r, c', tr') \<Rightarrow> (r, c', tr @ tr')))"

definition putFile :: "env \<Rightarrow> client \<Rightarrow> string \<Rightarrow> (exn + unit) \<times> client \<times> event list" where
  "putFile e c file =
     thenUpdateLastMod e c
       (andThen (fs_stat e file) (\<lambda>sz.
          if of_nat sz < sizeThresholdBytes
          then doSinglePartUpload e file
          else doMultiPartUpload e file))"

text \<open>
  \<^verbatim>\<open>putJsonString\<close>: the string is given as its UTF-8 bytes, so that its length is
  \<^verbatim>\<open>buffer.length\<close>.
\<close>

definition putJsonString ::
  "env \<Rightarrow> client \<Rightarrow> string \<Rightarrow> string \<Rightarrow> (exn + unit) \<times> client \<times> event list" where
  "putJsonString e c str key =
     thenUpdateLastMod e c
       (andThen (signPutUrl e key (length str)) (\<lambda>signedUrl.
          let tr = [PutBuffer signedUrl str (length str) ''application/json''] in
          case snd (put e signedUrl) of
            Inl err \<Rightarrow> (Inl err, tr)
          | Inr rsp \<Rightarrow>
              if status rsp \<ge> 400
              then (Inl (Error ''Uploading a JSON string to the cloud failed''),
                    tr @ [ConsoleError [''[CloudClient] JSON upload failed'', key,
                                        natToString (status rsp), data rsp]])
              else (Inr (), tr)))"

definition delete :: "env \<Rightarrow> client \<Rightarrow> string \<Rightarrow> (exn + unit) \<times> client \<times> event list" where
  "delete e c key =
     thenUpdateLastMod e c
       (case axiosDefault (object_delete e key) of
          Inl err \<Rightarrow> (Inl err, [DeleteObject key])
        | Inr rsp \<Rightarrow> (Inr (), [DeleteObject key]))"

text \<open>
  \<^verbatim>\<open>getAsFile\<close>: the environment answers the GET of the object with its response, the
  byte counts of the progress events delivered while the body is piped into the file,
  and the way the write stream ends (\<^verbatim>\<open>finish\<close> or \<^verbatim>\<open>error\<close>).
\<close>

definition getAsFile :: "env \<Rightarrow> string \<Rightarrow> string \<Rightarrow> string \<Rightarrow> (exn + unit) \<times> event list" where
  "getAsFile e key url dir =
     (case axiosDefault (size_get e key) of
        Inl err \<Rightarrow> (Inl err, [GetSize key])
      | Inr sizeRsp \<Rightarrow>
          (case object_get e url of
             Inl err \<Rightarrow> (Inl err, [GetSize key, GetObject url])
           | Inr (rsp, loaded, finished) \<Rightarrow>
               (case axiosDefault (Inr rsp) of
                  Inl err \<Rightarrow> (Inl err, [GetSize key, GetObject url])
                | Inr response \<Rightarrow>
                    (finished,
                     [GetSize key, GetObject url, WriteFile dir key]
                     @ map (\<lambda>l. Progress (roundedPercent (of_nat (data_size sizeRsp))
                                            (of_nat l)))
                         loaded))))"

subsection \<open>Reading a clock value\<close>

text \<open>
  The value of \<^verbatim>\<open>bucketLastMod\<close> is a string; the class only tests it for equality.
  To say that one value is later than another, the string is read as the decimal number
  it spells, which is how \<^verbatim>\<open>updateLastMod\<close> writes it.
\<close>

definition digitValue :: "char \<Rightarrow> nat" where
  "digitValue ch = of_char ch - 48"

definition clockValue :: "string \<Rightarrow> nat" where
  "clockValue s = foldl (\<lambda>a ch. 10 * a + digitValue ch) 0 s"

subsection \<open>Example environments\<close>

text \<open>
  \<^verbatim>\<open>path.basename\<close> as it is on POSIX systems, where the only separator is the
  slash: trailing slashes are dropped and what follows the last remaining slash is
  returned. The theorems below hold for any function in its place.
\<close>

definition posix_basename :: "string \<Rightarrow> string" where
  "posix_basename p =
     rev (takeWhile (\<lambda>c. c \<noteq> CHR ''/'') (dropWhile (\<lambda>c. c = CHR ''/'') (rev p)))"

definition okResponse :: response where
  "okResponse = \<lparr>status = 200, data = ''ok'', data_signed = ''https://r2/signed'',
     data_urls = [], data_size = 100, headers_etag = None\<rparr>"

text \<open>
  An environment in which every call succeeds: files are 100 bytes long, the remote
  clock reads 150, the local clock reads 1700000000000 ms, and no listener throws.
\<close>

definition quietEnv :: env where
  "quietEnv = \<lparr>basename = posix_basename, stat = (\<lambda>f. Inr 100), getTime = 1700000000000,
     mtime_get = Inr (okResponse\<lparr>data := ''150''\<rparr>),
     mtime_post = (\<lambda>m. Inr okResponse),
     object_delete = (\<lambda>k. Inr okResponse),
     sign_get = (\<lambda>k n. Inr okResponse),
     create_get = (\<lambda>k n. Inr okResponse),
     complete_post = (\<lambda>k ts. Inr okResponse),
     put = (\<lambda>u. ([], Inr okResponse)),
     part_put = (\<lambda>p u. ([], Inr okResponse)),
     size_get = (\<lambda>k. Inr okResponse),
     object_get = (\<lambda>u. Inr (okResponse, [], Inr ())),
     listeners = (\<lambda>n. None)\<rparr>"

definition guild :: "string \<Rightarrow> client" where
  "guild m = \<lparr>bucket = ''guild'', bucketLastMod = m\<rparr>"

subsection \<open>Reading a trace\<close>

text \<open>The object key a request to the API names, for the requests that name one.\<close>

fun eventKey :: "event \<Rightarrow> string option" where
  "eventKey (SignPutUrl k n) = Some k"
| "eventKey (CreateMultiPartUpload k n) = Some k"
| "eventKey (CompleteMultiPartUpload k ts) = Some k"
| "eventKey ev = None"

text \<open>The entries of a trace that are requests to the API or to the object store.\<close>

fun isRequest :: "event \<Rightarrow> bool" where
  "isRequest (Stat f) = False"
| "isRequest (Progress v) = False"
| "isRequest (WriteFile d k) = False"
| "isRequest (Emit n) = False"
| "isRequest (ConsoleError xs) = False"
| "isRequest ev = True"

fun isPartPut :: "event \<Rightarrow> bool" where
  "isPartPut (PutObject u r n t) = True"
| "isPartPut ev = False"

fun isFinalize :: "event \<Rightarrow> bool" where
  "isFinalize (CompleteMultiPartUpload k ts) = True"
| "isFinalize ev = False"

text \<open>The values a trace hands to the progress callback, in order.\<close>

fun progressValue :: "event \<Rightarrow> int option list" where
  "progressValue (Progress v) = [v]"
| "progressValue ev = []"

definition progressValues :: "event list \<Rightarrow> int option list" where
  "progressValues tr = concat (map progressValue tr)"

text \<open>Two values reported one after the other do not go down: both are finite, in order.\<close>

definition reportedLe :: "int option \<Rightarrow> int option \<Rightarrow> bool" where
  "reportedLe v w = (case v of None \<Rightarrow> False | Some a \<Rightarrow> (case w of None \<Rightarrow> False | Some b \<Rightarrow> a \<le> b))"

text \<open>
  The values of the variables \<^verbatim>\<open>offset\<close> and \<^verbatim>\<open>bytes\<close> of the loop of
  \<^verbatim>\<open>doMultiPartUpload\<close> at the start of round \<open>p\<close>, for a file of \<open>sz\<close> bytes.
\<close>

definition partStart :: "nat \<Rightarrow> nat \<Rightarrow> nat" where
  "partStart sz p = min sz (p * partSizeBytes)"

definition partLength :: "nat \<Rightarrow> nat \<Rightarrow> nat" where
  "partLength sz p = partBytes (sz - partStart sz p)"

text \<open>
  \<^verbatim>\<open>fs.createReadStream(file, { start, end })\<close> delivers the bytes of the file at the
  offsets \<^verbatim>\<open>start\<close> to \<^verbatim>\<open>end\<close>, both inclusive, as far as the file reaches; without the
  options it delivers the whole file. \<open>streamRange\<close> gives the offsets delivered from a
  file of \<open>sz\<close> bytes as the pair of the first offset and the one after the last.
\<close>

definition streamRange :: "nat \<Rightarrow> (nat \<times> nat) option \<Rightarrow> nat \<times> nat" where
  "streamRange sz opts =
     (case opts of
        None \<Rightarrow> (0, sz)
      | Some (start, stop) \<Rightarrow> (min start sz, min (Suc stop) sz))"

fun readRange :: "nat \<Rightarrow> event \<Rightarrow> (nat \<times> nat) list" where
  "readRange sz (PutObject u r n t) = [streamRange sz r]"
| "readRange sz ev = []"

definition readRanges :: "nat \<Rightarrow> event list \<Rightarrow> (nat \<times> nat) list" where
  "readRanges sz tr = concat (map (readRange sz) tr)"

text \<open>
  The outcome of the PUT of a part that passes the two checks of the loop of
  \<^verbatim>\<open>doMultiPartUpload\<close>: the status is below 400 and \<^verbatim>\<open>headers.etag\<close> is neither
  missing nor empty. \<open>responseEtag\<close> is that header.
\<close>

definition accepted :: "exn + response \<Rightarrow> bool" where
  "accepted outcome =
     (case outcome of
        Inl err \<Rightarrow> False
      | Inr rsp \<Rightarrow>
          status rsp < 400 \<and> (case headers_etag rsp of None \<Rightarrow> False | Some t \<Rightarrow> t \<noteq> []))"

definition responseEtag :: "exn + response \<Rightarrow> string" where
  "responseEtag outcome =
     (case outcome of
        Inl err \<Rightarrow> []
      | Inr rsp \<Rightarrow> (case headers_etag rsp of None \<Rightarrow> [] | Some t \<Rightarrow> t))"

text \<open>
  A token with its wrapping quote characters stripped, as the specification words it:
  a quote at the start and a quote at the end are removed, others are kept.
\<close>

definition stripWrappingQuotes :: "string \<Rightarrow> string" where
  "stripWrappingQuotes s =
     (let s1 = (case s of [] \<Rightarrow> [] | c # t \<Rightarrow> if c = CHR 0x22 then t else c # t)
      in case rev s1 of [] \<Rightarrow> [] | c # t \<Rightarrow> if c = CHR 0x22 then rev t else s1)"

text \<open>
  An upload of a file of 5 GiB in five parts. Part \<open>bad\<close> is answered with status \<open>s\<close>
  and etag header \<open>t\<close>, every other part with status 200 and the etag \<^verbatim>\<open>"abc"\<close>, quotes
  included.
\<close>

definition fiveParts :: "nat \<Rightarrow> nat \<Rightarrow> string option \<Rightarrow> env" where
  "fiveParts bad s t = quietEnv
     \<lparr>stat := (\<lambda>f. Inr 5368709120),
      create_get := (\<lambda>k n. Inr (okResponse\<lparr>data_urls := [''u0'', ''u1'', ''u2'', ''u3'', ''u4'']\<rparr>)),
      part_put := (\<lambda>p u.
        if p = bad then ([], Inr (okResponse\<lparr>status := s, headers_etag := t\<rparr>))
        else ([], Inr (okResponse\<lparr>headers_etag := Some (CHR 0x22 # ''abc'' @ [CHR 0x22])\<rparr>)))\<rparr>"

text \<open>
  An upload of a file of 5 GiB and one byte in six parts, all accepted. While a part of
  1 GiB is sent, progress is reported after the first 64 KiB and at the end; the last
  part is one byte long and reports once.
\<close>

definition sixParts :: env where
  "sixParts = quietEnv
     \<lparr>stat := (\<lambda>f. Inr 5368709121),
      create_get := (\<lambda>k n. Inr (okResponse\<lparr>data_urls := [''u0'', ''u1'', ''u2'', ''u3'', ''u4'', ''u5'']\<rparr>)),
      part_put := (\<lambda>p u.
        (if p < 5 then [65536, 1073741824] else [1],
         Inr (okResponse\<lparr>headers_etag := Some (CHR 0x22 # ''abc'' @ [CHR 0x22])\<rparr>)))\<rparr>"

section \<open>Properties\<close>

subsection \<open>Decimal numerals\<close>

lemma natToString_numeral [simp]:
  "natToString (numeral k) =
     (if numeral k < (10::nat) then [digitChar (numeral k)]
      else natToString (numeral k div 10) @ [digitChar (numeral k mod 10)])"
  by (rule natToString.simps)

lemma natToString_0 [simp]: "natToString 0 = ''0''"
  by (subst natToString.simps) (simp add: digitChar_def)

lemma natToString_1 [simp]: "natToString (Suc 0) = ''1''"
  by (subst natToString.simps) (simp add: digitChar_def)

lemma toString_millis: "toString 1700000000000 = ''1700000000000''"
  by (simp add: toString_def digitChar_def)

lemma digitValue_digitChar: "d < 10 \<Longrightarrow> digitValue (digitChar d) = d"
proof -
  assume "d < 10"
  then consider "d = 0" | "d = 1" | "d = 2" | "d = 3" | "d = 4" | "d = 5" | "d = 6" | "d = 7"
    | "d = 8" | "d = 9"
    by atomize_elim arith
  then show ?thesis
    by cases (simp_all add: digitValue_def digitChar_def)
qed

lemma clockValue_snoc: "clockValue (s @ [ch]) = 10 * clockValue s + digitValue ch"
  by (simp add: clockValue_def)

lemma clockValue_natToString: "clockValue (natToString n) = n"
proof (induction n rule: natToString.induct)
  case (1 n)
  show ?case
  proof (cases "n < 10")
    case True
    then show ?thesis
      using digitValue_digitChar [of n]
      by (subst natToString.simps) (simp add: clockValue_def)
  next
    case False
    then have "clockValue (natToString (n div 10)) = n div 10"
      using "1" by simp
    moreover have "natToString n = natToString (n div 10) @ [digitChar (n mod 10)]"
      using False by (subst natToString.simps) simp
    ultimately show ?thesis
      using digitValue_digitChar [of "n mod 10"] by (simp add: clockValue_snoc)
  qed
qed

lemma clockValue_toString: "0 \<le> t \<Longrightarrow> clockValue (toString t) = nat t"
  by (simp add: toString_def clockValue_natToString)

subsection \<open>The default status check of axios\<close>

lemma axiosDefault_okResponse: "axiosDefault (Inr okResponse) = Inr okResponse"
  by (simp add: axiosDefault_def okResponse_def)

lemma axiosDefault_Inr:
  "axiosDefault outcome = Inr rsp \<longleftrightarrow> outcome = Inr rsp \<and> 200 \<le> status rsp \<and> status rsp < 300"
  by (auto simp: axiosDefault_def split: sum.splits if_splits)




subsection \<open>The change detector\<close>

text \<open>
  C8, as the class has it. A poll tick (\<^verbatim>\<open>checkForUpdate\<close>) whose fetch of the remote
  clock succeeds: when the fetched value differs from the cached one, exactly one
  \<^verbatim>\<open>change\<close> notification is emitted; if the listeners return, the tick succeeds and the
  cache takes the fetched value; if a listener throws, the tick fails with that exception
  and the client is unchanged, because the notification is emitted before the cache is
  written. When the two values are equal, no notification is emitted, the client is
  unchanged and the tick succeeds.
\<close>

theorem checkForUpdate_notifies:
  assumes "axiosDefault (mtime_get e) = Inr rsp"
  shows "case checkForUpdate e c of (r, c', tr) \<Rightarrow>
           (data rsp \<noteq> bucketLastMod c \<longrightarrow>
              count_list tr (Emit ''change'') = 1
              \<and> (listeners e ''change'' = None \<longrightarrow>
                    r = Inr () \<and> c' = c\<lparr>bucketLastMod := data rsp\<rparr>)
              \<and> (\<forall>err. listeners e ''change'' = Some err \<longrightarrow> r = Inl err \<and> c' = c))
         \<and> (data rsp = bucketLastMod c \<longrightarrow>
              r = Inr () \<and> count_list tr (Emit ''change'') = 0 \<and> c' = c)"
  using assms by (simp add: checkForUpdate_def getMtime_def split: option.splits)

theorem checkForUpdate_notifies_witness:
  "axiosDefault (mtime_get quietEnv) = Inr (okResponse\<lparr>data := ''150''\<rparr>)
   \<and> listeners quietEnv ''change'' = None
   \<and> checkForUpdate quietEnv (guild ''100'')
     = (Inr (), guild ''150'', [GetMtime, Emit ''change''])
   \<and> checkForUpdate quietEnv (guild ''150'') = (Inr (), guild ''150'', [GetMtime])"
proof -
  have h: "axiosDefault (mtime_get quietEnv) = Inr (okResponse\<lparr>data := ''150''\<rparr>)"
    by (simp add: quietEnv_def axiosDefault_def okResponse_def)
  have l: "listeners quietEnv ''change'' = None"
    by (simp add: quietEnv_def)
  show ?thesis
    using h l checkForUpdate_notifies [OF h, of "guild ''100''"]
      checkForUpdate_notifies [OF h, of "guild ''150''"]
    by (simp add: checkForUpdate_def getMtime_def guild_def)
qed

text \<open>
  C8 as stated fails when a listener of \<^verbatim>\<open>change\<close> throws: the remote clock reads 150,
  the cache 100, the notification is emitted, and the cache still reads 100 after the
  tick, which has failed.
\<close>

theorem checkForUpdate_listener_throws:
  "axiosDefault (mtime_get (quietEnv\<lparr>listeners := (\<lambda>n. Some (Error ''listener failed''))\<rparr>))
     = Inr (okResponse\<lparr>data := ''150''\<rparr>)
   \<and> checkForUpdate (quietEnv\<lparr>listeners := (\<lambda>n. Some (Error ''listener failed''))\<rparr>) (guild ''100'')
     = (Inl (Error ''listener failed''), guild ''100'', [GetMtime, Emit ''change''])"
  by (simp add: checkForUpdate_def getMtime_def quietEnv_def axiosDefault_def okResponse_def
      guild_def)





subsection \<open>Sequencing\<close>

lemma andThen_Inr:
  "andThen m f = (Inr y, tr) \<Longrightarrow>
     \<exists>x tr1 tr2. m = (Inr x, tr1) \<and> f x = (Inr y, tr2) \<and> tr = tr1 @ tr2"
  by (auto simp: andThen_def split: prod.splits sum.splits)

lemma andThen_events:
  assumes "\<forall>ev\<in>set (snd m). P ev"
    and "\<And>x. fst m = Inr x \<Longrightarrow> \<forall>ev\<in>set (snd (f x)). P ev"
  shows "\<forall>ev\<in>set (snd (andThen m f)). P ev"
  using assms by (auto simp: andThen_def split: prod.splits sum.splits)

lemma thenUpdateLastMod_ok:
  assumes "fst (thenUpdateLastMod e c m) = Inr ()"
  shows "fst (snd (thenUpdateLastMod e c m)) = c\<lparr>bucketLastMod := toString (getTime e)\<rparr>
         \<and> snd (snd (thenUpdateLastMod e c m)) = snd m @ [PostMtime (toString (getTime e))]
         \<and> fst m = Inr ()"
  using assms
  by (auto simp: thenUpdateLastMod_def updateLastMod_def Let_def split: prod.splits sum.splits)

subsection \<open>Advancing the clock\<close>

text \<open>
  C7, as the class has it. After a successful \<^verbatim>\<open>putFile\<close>, \<^verbatim>\<open>putJsonString\<close> or
  \<^verbatim>\<open>delete\<close> the cached clock value is the decimal numeral of the local time in
  milliseconds read by \<^verbatim>\<open>updateLastMod\<close>, and the last request of the call is the post
  of that value. \<^verbatim>\<open>updateLastMod\<close> stores the value in the cache whatever the outcome of
  the post is, so the value is adopted before it is pushed. The new value is later than
  the old one when the old one is the numeral of an earlier time.
\<close>

theorem mutation_adopts_local_time:
  assumes "m = putFile e c file \<or> m = putJsonString e c str key \<or> m = delete e c key"
    and "fst m = Inr ()"
  shows "bucketLastMod (fst (snd m)) = toString (getTime e)
       \<and> last (snd (snd m)) = PostMtime (toString (getTime e))
       \<and> fst (snd (updateLastMod e c)) = c\<lparr>bucketLastMod := toString (getTime e)\<rparr>
       \<and> (\<forall>t. 0 \<le> t \<and> t < getTime e \<and> bucketLastMod c = toString t \<longrightarrow>
             clockValue (bucketLastMod c) < clockValue (bucketLastMod (fst (snd m))))"
proof -
  from assms(1) obtain u where m: "m = thenUpdateLastMod e c u"
    unfolding putFile_def putJsonString_def delete_def by blast
  from thenUpdateLastMod_ok [of e c u] assms(2) m
  have st: "fst (snd m) = c\<lparr>bucketLastMod := toString (getTime e)\<rparr>"
    and tr: "snd (snd m) = snd u @ [PostMtime (toString (getTime e))]"
    by simp_all
  have "fst (snd (updateLastMod e c)) = c\<lparr>bucketLastMod := toString (getTime e)\<rparr>"
    by (simp add: updateLastMod_def Let_def split: sum.splits)
  moreover have "clockValue (bucketLastMod c) < clockValue (bucketLastMod (fst (snd m)))"
    if "0 \<le> t" "t < getTime e" "bucketLastMod c = toString t" for t
    using that st by (simp add: clockValue_toString)
  ultimately show ?thesis
    using st tr by auto
qed

theorem mutation_adopts_local_time_witness:
  "fst (delete quietEnv (guild ''1600000000000'') ''video.mp4'') = Inr ()
   \<and> bucketLastMod (fst (snd (delete quietEnv (guild ''1600000000000'') ''video.mp4'')))
       = ''1700000000000''
   \<and> clockValue ''1600000000000'' < clockValue ''1700000000000''"
proof -
  let ?c = "guild ''1600000000000''"
  let ?m = "delete quietEnv ?c ''video.mp4''"
  have ok: "fst ?m = Inr ()"
    by (simp add: delete_def thenUpdateLastMod_def updateLastMod_def quietEnv_def Let_def
        axiosDefault_okResponse)
  have t: "bucketLastMod ?c = toString 1600000000000"
    by (simp add: toString_def digitChar_def guild_def)
  have g: "getTime quietEnv = 1700000000000"
    by (simp add: quietEnv_def)
  note concl = mutation_adopts_local_time
    [of ?m quietEnv ?c "[]" "[]" "''video.mp4''", OF disjI2 [OF disjI2 [OF refl]] ok]
  from concl have a: "bucketLastMod (fst (snd ?m)) = toString (getTime quietEnv)"
    by blast
  from concl have "0 \<le> (1600000000000::int) \<and> 1600000000000 < getTime quietEnv
      \<and> bucketLastMod ?c = toString 1600000000000
      \<longrightarrow> clockValue (bucketLastMod ?c) < clockValue (bucketLastMod (fst (snd ?m)))"
    by blast
  with t g have b: "clockValue (bucketLastMod ?c) < clockValue (bucketLastMod (fst (snd ?m)))"
    by simp
  from a b ok show ?thesis
    by (simp add: g toString_millis guild_def)
qed

text \<open>
  C7 as stated fails when the local clock has not moved past the cached value: a
  \<^verbatim>\<open>delete\<close> in the millisecond whose numeral is already cached succeeds and leaves
  the cached value as it was.
\<close>

theorem delete_same_millisecond:
  "fst (delete quietEnv (guild ''1700000000000'') ''video.mp4'') = Inr ()
   \<and> bucketLastMod (fst (snd (delete quietEnv (guild ''1700000000000'') ''video.mp4'')))
       = bucketLastMod (guild ''1700000000000'')
   \<and> \<not> clockValue (bucketLastMod (guild ''1700000000000''))
        < clockValue (bucketLastMod (fst (snd (delete quietEnv (guild ''1700000000000'') ''video.mp4''))))"
  by (simp add: delete_def thenUpdateLastMod_def updateLastMod_def quietEnv_def Let_def guild_def
      toString_millis axiosDefault_okResponse)

subsection \<open>Facts about the example environments\<close>

lemma posix_basename_video: "posix_basename ''/a/b/video.mp4'' = ''video.mp4''"
  by (simp add: posix_basename_def)

lemma getContentType_mp4: "getContentType ''video.mp4'' = (Inr ''video/mp4'', [])"
  by (simp add: getContentType_def endsWith_def)

lemma quietEnv_single:
  "stat quietEnv file = Inr 100"
  "basename quietEnv ''/a/b/video.mp4'' = ''video.mp4''"
  "sign_get quietEnv k n = Inr okResponse"
  "status okResponse = 200"
  "data_signed okResponse = ''https://r2/signed''"
  by (simp_all add: quietEnv_def okResponse_def posix_basename_def)

lemma fiveParts_setup:
  "stat (fiveParts bad s t) ''/a/b/video.mp4'' = Inr 5368709120"
  "getContentType (basename (fiveParts bad s t) ''/a/b/video.mp4'') = (Inr ''video/mp4'', [])"
  "basename (fiveParts bad s t) ''/a/b/video.mp4'' = ''video.mp4''"
  "create_get (fiveParts bad s t) ''video.mp4'' 5368709120
     = Inr (okResponse\<lparr>data_urls := [''u0'', ''u1'', ''u2'', ''u3'', ''u4'']\<rparr>)"
  "status (okResponse\<lparr>data_urls := [''u0'', ''u1'', ''u2'', ''u3'', ''u4'']\<rparr>) = 200"
  "complete_post (fiveParts bad s t) k ts = Inr okResponse"
  by (simp_all add: fiveParts_def quietEnv_def okResponse_def posix_basename_def
      getContentType_def endsWith_def)

lemma fiveParts_part:
  "snd (part_put (fiveParts bad s t) p u) =
     (if p = bad then Inr (okResponse\<lparr>status := s, headers_etag := t\<rparr>)
      else Inr (okResponse\<lparr>headers_etag := Some (CHR 0x22 # ''abc'' @ [CHR 0x22])\<rparr>))"
  by (simp add: fiveParts_def quietEnv_def)

lemma upt_5: "[0..<5] = [0, 1, 2, 3, 4]"
  by (simp add: upt_rec)

subsection \<open>Projections of a sequence of steps\<close>

lemma fst_andThen:
  "fst (andThen m f) = (case fst m of Inl err \<Rightarrow> Inl err | Inr x \<Rightarrow> fst (f x))"
  by (simp add: andThen_def split: prod.splits sum.splits)

lemma snd_andThen:
  "snd (andThen m f) = (case fst m of Inl err \<Rightarrow> snd m | Inr x \<Rightarrow> snd m @ snd (f x))"
  by (simp add: andThen_def split: prod.splits sum.splits)

lemma thenUpdateLastMod_events:
  "set (snd (snd (thenUpdateLastMod e c m))) \<subseteq> set (snd m) \<union> {PostMtime (toString (getTime e))}"
  by (auto simp: thenUpdateLastMod_def updateLastMod_def Let_def split: prod.splits sum.splits)

subsection \<open>The loop over the parts\<close>

lemma uploadPart_result:
  "fst (uploadPart e key ct n url part off rem) =
     (case snd (part_put e part url) of
        Inl err \<Rightarrow> Inl err
      | Inr rsp \<Rightarrow>
          if accepted (Inr rsp) then Inr (replaceAll_quotes (responseEtag (Inr rsp)))
          else Inl (Error ''Multipart upload failed''))"
  by (simp add: uploadPart_def Let_def accepted_def responseEtag_def
      split: sum.splits option.splits)

lemma uploadPart_puts:
  "filter isPartPut (snd (uploadPart e key ct n url part off rem))
     = [PutObject url (Some (off, off + partBytes rem)) (partBytes rem) ct]"
  by (simp add: uploadPart_def Let_def filter_map comp_def split: sum.splits option.splits)

lemma uploadPart_events:
  "\<forall>ev\<in>set (snd (uploadPart e key ct n url part off rem)).
     eventKey ev = None \<and> \<not> isFinalize ev \<and> (isRequest ev \<longrightarrow> isPartPut ev)"
  by (auto simp: uploadPart_def Let_def split: sum.splits option.splits)

lemma uploadParts_events:
  "\<forall>ev\<in>set (snd (uploadParts e key ct sz n rest part off rem etags)).
     eventKey ev = None \<and> \<not> isFinalize ev \<and> (isRequest ev \<longrightarrow> isPartPut ev)"
proof (induction rest arbitrary: part off rem etags)
  case Nil
  show ?case by simp
next
  case (Cons url rest)
  show ?case
    unfolding uploadParts.simps
    by (intro andThen_events uploadPart_events) (use Cons.IH in simp_all)
qed

lemma uploadParts_accepts:
  assumes "\<forall>q<length rest. accepted (snd (part_put e (part + q) (rest ! q)))"
  shows "fst (uploadParts e key ct sz n rest part off rem etags) =
           Inr (etags @ map (\<lambda>q. replaceAll_quotes (responseEtag (snd (part_put e (part + q) (rest ! q)))))
                  [0..<length rest])"
  using assms
proof (induction rest arbitrary: part off rem etags)
  case Nil
  show ?case by simp
next
  case (Cons url rest)
  from Cons.prems have a0: "accepted (snd (part_put e part url))"
    by force
  from Cons.prems have rest: "\<forall>q<length rest. accepted (snd (part_put e (Suc part + q) (rest ! q)))"
    by force
  from a0 obtain rsp where rsp: "snd (part_put e part url) = Inr rsp"
    by (auto simp: accepted_def split: sum.splits)
  have up: "fst (uploadPart e key ct n url part off rem)
      = Inr (replaceAll_quotes (responseEtag (Inr rsp)))"
    using uploadPart_result [of e key ct n url part off rem] a0 rsp by simp
  have "[0..<length (url # rest)] = 0 # map Suc [0..<length rest]"
    by (simp add: upt_conv_Cons map_Suc_upt del: upt_Suc)
  then show ?case
    using Cons.IH [OF rest] up rsp
    by (simp add: fst_andThen comp_def del: upt_Suc)
qed

lemma uploadParts_rejects:
  assumes "p < length rest"
    and "\<forall>q<p. accepted (snd (part_put e (part + q) (rest ! q)))"
    and "\<not> accepted (snd (part_put e (part + p) (rest ! p)))"
  shows "fst (uploadParts e key ct sz n rest part off rem etags) =
           (case snd (part_put e (part + p) (rest ! p)) of
              Inl err \<Rightarrow> Inl err
            | Inr rsp \<Rightarrow> Inl (Error ''Multipart upload failed''))
         \<and> length (filter isPartPut (snd (uploadParts e key ct sz n rest part off rem etags))) = Suc p"
  using assms
proof (induction rest arbitrary: p part off rem etags)
  case Nil
  then show ?case by simp
next
  case (Cons url rest)
  show ?case
  proof (cases p)
    case 0
    with Cons.prems have "\<not> accepted (snd (part_put e part url))"
      by simp
    then show ?thesis
      using 0 uploadPart_result [of e key ct n url part off rem]
        uploadPart_puts [of e key ct n url part off rem]
      by (auto simp: fst_andThen snd_andThen split: sum.splits)
  next
    case (Suc p')
    with Cons.prems have a0: "accepted (snd (part_put e part url))"
      by force
    from Suc Cons.prems have p': "p' < length rest"
      and acc: "\<forall>q<p'. accepted (snd (part_put e (Suc part + q) (rest ! q)))"
      and rej: "\<not> accepted (snd (part_put e (Suc part + p') (rest ! p')))"
      by force+
    from a0 obtain rsp where rsp: "snd (part_put e part url) = Inr rsp"
      by (auto simp: accepted_def split: sum.splits)
    have up: "fst (uploadPart e key ct n url part off rem)
        = Inr (replaceAll_quotes (responseEtag (Inr rsp)))"
      using uploadPart_result [of e key ct n url part off rem] a0 rsp by simp
    show ?thesis
      using Cons.IH [OF p' acc rej] up Suc uploadPart_puts [of e key ct n url part off rem]
      by (simp add: fst_andThen snd_andThen)
  qed
qed

lemma replaceAll_quotes_strip:
  "replaceAll_quotes (stripWrappingQuotes s) = replaceAll_quotes s"
proof -
  define s1 where "s1 = (case s of [] \<Rightarrow> [] | c # t \<Rightarrow> if c = CHR 0x22 then t else c # t)"
  have a: "replaceAll_quotes s1 = replaceAll_quotes s"
    by (cases s) (simp_all add: s1_def replaceAll_quotes_def)
  have b: "replaceAll_quotes (case rev s1 of [] \<Rightarrow> [] | c # t \<Rightarrow> if c = CHR 0x22 then rev t else s1)
      = replaceAll_quotes s1"
  proof (cases s1 rule: rev_cases)
    case Nil
    then show ?thesis by simp
  next
    case (snoc t c)
    then show ?thesis by (simp add: replaceAll_quotes_def)
  qed
  have "stripWrappingQuotes s
      = (case rev s1 of [] \<Rightarrow> [] | c # t \<Rightarrow> if c = CHR 0x22 then rev t else s1)"
    unfolding stripWrappingQuotes_def Let_def s1_def by (rule refl)
  with a b show ?thesis
    by simp
qed

lemma replaceAll_quotes_wrapping:
  "CHR 0x22 \<notin> set (stripWrappingQuotes s) \<Longrightarrow> replaceAll_quotes s = stripWrappingQuotes s"
proof -
  assume "CHR 0x22 \<notin> set (stripWrappingQuotes s)"
  then have "replaceAll_quotes (stripWrappingQuotes s) = stripWrappingQuotes s"
    unfolding replaceAll_quotes_def by (intro filter_True) auto
  then show ?thesis
    by (simp add: replaceAll_quotes_strip)
qed

lemma completeMultiPartUpload_finalize:
  "filter isFinalize (snd (completeMultiPartUpload e key etags)) = [CompleteMultiPartUpload key etags]"
  by (simp add: completeMultiPartUpload_def split: sum.splits)

lemma uploadParts_no_finalize:
  "filter isFinalize (snd (uploadParts e key ct sz n rest part off rem etags)) = []"
  using uploadParts_events [of e key ct sz n rest part off rem etags]
  by (simp add: filter_empty_conv)

lemma uploadParts_only_puts:
  "filter (\<lambda>ev. isRequest ev \<and> \<not> isPartPut ev)
     (snd (uploadParts e key ct sz n rest part off rem etags)) = []"
  using uploadParts_events [of e key ct sz n rest part off rem etags]
  by (auto simp: filter_empty_conv)

lemma doMultiPartUpload_unfold:
  assumes "stat e file = Inr sz"
    and "getContentType (basename e file) = (Inr ct, [])"
    and "create_get e (basename e file) sz = Inr crsp"
    and "status crsp = 200"
  shows "doMultiPartUpload e file =
     (case uploadParts e (basename e file) ct sz (length (data_urls crsp)) (data_urls crsp) 0 0 sz [] of
        (Inl err, tr) \<Rightarrow> (Inl err, [Stat file, CreateMultiPartUpload (basename e file) sz] @ tr)
      | (Inr etags, tr) \<Rightarrow>
          (fst (completeMultiPartUpload e (basename e file) etags),
           [Stat file, CreateMultiPartUpload (basename e file) sz] @ tr
           @ snd (completeMultiPartUpload e (basename e file) etags)))"
  using assms
  by (simp add: doMultiPartUpload_def Let_def andThen_def fs_stat_def createMultiPartUpload_def
      split: prod.splits sum.splits)

lemma fiveParts_accepted_run:
  assumes "accepted (Inr (okResponse\<lparr>status := s, headers_etag := t\<rparr>))"
  shows "fst (doMultiPartUpload (fiveParts 2 s t) ''/a/b/video.mp4'') = Inr ()
       \<and> filter isFinalize (snd (doMultiPartUpload (fiveParts 2 s t) ''/a/b/video.mp4''))
         = [CompleteMultiPartUpload ''video.mp4''
              [''abc'', ''abc'',
               replaceAll_quotes (responseEtag (Inr (okResponse\<lparr>status := s, headers_etag := t\<rparr>))),
               ''abc'', ''abc'']]"
proof -
  let ?e = "fiveParts 2 s t"
  let ?urls = "[''u0'', ''u1'', ''u2'', ''u3'', ''u4'']"
  let ?loop = "uploadParts ?e ''video.mp4'' ''video/mp4'' 5368709120 (length ?urls) ?urls 0 0
                 5368709120 []"
  let ?tokens = "[''abc'', ''abc'',
      replaceAll_quotes (responseEtag (Inr (okResponse\<lparr>status := s, headers_etag := t\<rparr>))),
      ''abc'', ''abc'']"
  have acc: "\<forall>q<length ?urls. accepted (snd (part_put ?e (0 + q) (?urls ! q)))"
    using assms by (simp add: fiveParts_part) (simp add: accepted_def okResponse_def)
  have len: "length ?urls = 5"
    by simp
  have "fst ?loop = Inr ([] @ map (\<lambda>q. replaceAll_quotes (responseEtag (snd (part_put ?e (0 + q) (?urls ! q)))))
                  [0..<length ?urls])"
    by (rule uploadParts_accepts [OF acc])
  then have loop: "fst ?loop = Inr ?tokens"
    unfolding len upt_5
    by (simp add: fiveParts_part del: uploadParts.simps)
       (simp add: responseEtag_def replaceAll_quotes_def okResponse_def)
  have "doMultiPartUpload ?e ''/a/b/video.mp4'' =
      (fst (completeMultiPartUpload ?e ''video.mp4'' ?tokens),
       [Stat ''/a/b/video.mp4'', CreateMultiPartUpload ''video.mp4'' 5368709120] @ snd ?loop
       @ snd (completeMultiPartUpload ?e ''video.mp4'' ?tokens))"
    using doMultiPartUpload_unfold [of ?e "''/a/b/video.mp4''" 5368709120 "''video/mp4''"
        "okResponse\<lparr>data_urls := ?urls\<rparr>"] loop
    by (cases ?loop) (simp add: fiveParts_setup getContentType_mp4 del: uploadParts.simps)
  moreover have "fst (completeMultiPartUpload ?e ''video.mp4'' ?tokens) = Inr ()"
    by (simp add: completeMultiPartUpload_def fiveParts_setup okResponse_def)
  ultimately show ?thesis
    by (simp add: completeMultiPartUpload_finalize uploadParts_no_finalize
        del: uploadParts.simps)
qed

subsection \<open>The tokens given to the finalize call\<close>

text \<open>
  C3, as the class has it. In a multi-part upload whose parts are all accepted, the
  finalize call is made once, with one token for each part in ascending part order: the
  \<^verbatim>\<open>etag\<close> header of the response to that part with every double quote character
  removed. For an etag whose only quotes are the wrapping ones this is the etag with its
  wrapping quotes stripped.
\<close>

theorem finalize_tokens_in_part_order:
  assumes "stat e file = Inr sz"
    and "getContentType (basename e file) = (Inr ct, [])"
    and "create_get e (basename e file) sz = Inr crsp"
    and "status crsp = 200"
    and "\<forall>p<length (data_urls crsp). accepted (snd (part_put e p (data_urls crsp ! p)))"
  shows "filter isFinalize (snd (doMultiPartUpload e file)) =
           [CompleteMultiPartUpload (basename e file)
              (map (\<lambda>p. replaceAll_quotes (responseEtag (snd (part_put e p (data_urls crsp ! p)))))
                 [0..<length (data_urls crsp)])]
         \<and> (\<forall>p<length (data_urls crsp).
               CHR 0x22 \<notin> set (stripWrappingQuotes (responseEtag (snd (part_put e p (data_urls crsp ! p)))))
               \<longrightarrow> replaceAll_quotes (responseEtag (snd (part_put e p (data_urls crsp ! p))))
                   = stripWrappingQuotes (responseEtag (snd (part_put e p (data_urls crsp ! p)))))"
proof -
  let ?urls = "data_urls crsp"
  let ?loop = "uploadParts e (basename e file) ct sz (length ?urls) ?urls 0 0 sz []"
  have "fst ?loop = Inr (map (\<lambda>p. replaceAll_quotes (responseEtag (snd (part_put e p (?urls ! p)))))
                 [0..<length ?urls])"
    using uploadParts_accepts [of ?urls e 0 "basename e file" ct sz "length ?urls" 0 sz "[]"] assms(5)
    by simp
  then show ?thesis
    using doMultiPartUpload_unfold [OF assms(1-4)]
      uploadParts_no_finalize [of e "basename e file" ct sz "length ?urls" ?urls 0 0 sz "[]"]
      replaceAll_quotes_wrapping
    by (cases ?loop) (simp add: completeMultiPartUpload_finalize)
qed

theorem finalize_tokens_in_part_order_witness:
  "filter isFinalize (snd (doMultiPartUpload (fiveParts 2 200 (Some ''xyz'')) ''/a/b/video.mp4''))
     = [CompleteMultiPartUpload ''video.mp4'' [''abc'', ''abc'', ''xyz'', ''abc'', ''abc'']]"
proof -
  let ?e = "fiveParts 2 200 (Some ''xyz'')"
  let ?crsp = "okResponse\<lparr>data_urls := [''u0'', ''u1'', ''u2'', ''u3'', ''u4'']\<rparr>"
  have acc: "\<forall>p<length (data_urls ?crsp). accepted (snd (part_put ?e p (data_urls ?crsp ! p)))"
    by (simp add: fiveParts_part accepted_def okResponse_def)
  have len: "length (data_urls ?crsp) = 5"
    by simp
  have h1: "stat ?e ''/a/b/video.mp4'' = Inr 5368709120"
    and h2: "getContentType (basename ?e ''/a/b/video.mp4'') = (Inr ''video/mp4'', [])"
    and h3: "create_get ?e (basename ?e ''/a/b/video.mp4'') 5368709120 = Inr ?crsp"
    and h4: "status ?crsp = 200"
    by (simp_all add: fiveParts_setup getContentType_mp4)
  show ?thesis
    using finalize_tokens_in_part_order [OF h1 h2 h3 h4 acc]
    unfolding len upt_5
    by (simp add: fiveParts_setup(3) fiveParts_part responseEtag_def replaceAll_quotes_def
        okResponse_def)
qed

text \<open>
  C3 as stated fails for an etag with a quote character inside it: \<^verbatim>\<open>replaceAll\<close>
  removes that quote too, and the token given to the finalize call is not the etag with
  only its wrapping quotes stripped.
\<close>

theorem finalize_tokens_interior_quote:
  "fst (doMultiPartUpload
          (fiveParts 2 200 (Some [CHR 0x22, CHR ''a'', CHR 0x22, CHR ''b'', CHR 0x22]))
          ''/a/b/video.mp4'') = Inr ()
   \<and> filter isFinalize (snd (doMultiPartUpload
          (fiveParts 2 200 (Some [CHR 0x22, CHR ''a'', CHR 0x22, CHR ''b'', CHR 0x22]))
          ''/a/b/video.mp4''))
     = [CompleteMultiPartUpload ''video.mp4'' [''abc'', ''abc'', ''ab'', ''abc'', ''abc'']]
   \<and> stripWrappingQuotes [CHR 0x22, CHR ''a'', CHR 0x22, CHR ''b'', CHR 0x22]
     = [CHR ''a'', CHR 0x22, CHR ''b'']
   \<and> [CHR ''a'', CHR 0x22, CHR ''b''] \<noteq> ''ab''"
proof -
  have "accepted (Inr (okResponse\<lparr>status := 200,
      headers_etag := Some [CHR 0x22, CHR ''a'', CHR 0x22, CHR ''b'', CHR 0x22]\<rparr>))"
    by (simp add: accepted_def)
  from fiveParts_accepted_run [OF this] show ?thesis
    by (simp add: responseEtag_def replaceAll_quotes_def stripWrappingQuotes_def)
qed

subsection \<open>A part that fails\<close>

text \<open>
  C5, as the class has it. When the parts before part \<open>p\<close> are accepted and the response
  to part \<open>p\<close> has a status of 400 or more, or no \<^verbatim>\<open>etag\<close> header, or an empty one,
  the upload throws \<^verbatim>\<open>Error('Multipart upload failed')\<close>; the finalize call is not made;
  the only request besides the PUTs of the parts is the one that created the upload, so
  nothing is cleaned up; and no part after \<open>p\<close> is sent.
\<close>

theorem part_failure_aborts_upload:
  assumes "stat e file = Inr sz"
    and "getContentType (basename e file) = (Inr ct, [])"
    and "create_get e (basename e file) sz = Inr crsp"
    and "status crsp = 200"
    and "p < length (data_urls crsp)"
    and "\<forall>q<p. accepted (snd (part_put e q (data_urls crsp ! q)))"
    and "snd (part_put e p (data_urls crsp ! p)) = Inr rsp"
    and "400 \<le> status rsp \<or> headers_etag rsp = None \<or> headers_etag rsp = Some []"
  shows "fst (doMultiPartUpload e file) = Inl (Error ''Multipart upload failed'')
       \<and> filter isFinalize (snd (doMultiPartUpload e file)) = []
       \<and> filter (\<lambda>ev. isRequest ev \<and> \<not> isPartPut ev) (snd (doMultiPartUpload e file))
           = [CreateMultiPartUpload (basename e file) sz]
       \<and> length (filter isPartPut (snd (doMultiPartUpload e file))) = Suc p"
proof -
  let ?urls = "data_urls crsp"
  let ?loop = "uploadParts e (basename e file) ct sz (length ?urls) ?urls 0 0 sz []"
  have rej: "\<not> accepted (snd (part_put e p (?urls ! p)))"
    using assms(7,8) by (auto simp: accepted_def)
  have "fst ?loop = Inl (Error ''Multipart upload failed'')
      \<and> length (filter isPartPut (snd ?loop)) = Suc p"
    using uploadParts_rejects [of p ?urls e 0 "basename e file" ct sz "length ?urls" 0 sz "[]"]
      assms(5,6,7) rej
    by simp
  then show ?thesis
    using doMultiPartUpload_unfold [OF assms(1-4)]
      uploadParts_no_finalize [of e "basename e file" ct sz "length ?urls" ?urls 0 0 sz "[]"]
      uploadParts_only_puts [of e "basename e file" ct sz "length ?urls" ?urls 0 0 sz "[]"]
    by (cases ?loop) simp
qed

theorem part_failure_aborts_upload_witness:
  "fst (doMultiPartUpload (fiveParts 2 500 None) ''/a/b/video.mp4'')
     = Inl (Error ''Multipart upload failed'')
   \<and> filter isFinalize (snd (doMultiPartUpload (fiveParts 2 500 None) ''/a/b/video.mp4'')) = []
   \<and> length (filter isPartPut (snd (doMultiPartUpload (fiveParts 2 500 None) ''/a/b/video.mp4''))) = 3
   \<and> fst (doMultiPartUpload (fiveParts 2 200 (Some [])) ''/a/b/video.mp4'')
     = Inl (Error ''Multipart upload failed'')
   \<and> filter isFinalize (snd (doMultiPartUpload (fiveParts 2 200 (Some [])) ''/a/b/video.mp4'')) = []"
proof -
  let ?crsp = "okResponse\<lparr>data_urls := [''u0'', ''u1'', ''u2'', ''u3'', ''u4'']\<rparr>"
  have ready: "stat (fiveParts 2 s t) ''/a/b/video.mp4'' = Inr 5368709120"
    "getContentType (basename (fiveParts 2 s t) ''/a/b/video.mp4'') = (Inr ''video/mp4'', [])"
    "create_get (fiveParts 2 s t) (basename (fiveParts 2 s t) ''/a/b/video.mp4'') 5368709120
       = Inr ?crsp"
    "status ?crsp = 200" for s t
    by (simp_all add: fiveParts_setup getContentType_mp4)
  have p: "2 < length (data_urls ?crsp)"
    by simp
  have pre: "\<forall>q<2. accepted (snd (part_put (fiveParts 2 s t) q (data_urls ?crsp ! q)))" for s t
    by (simp add: fiveParts_part accepted_def okResponse_def)
  have cur: "snd (part_put (fiveParts 2 s t) 2 (data_urls ?crsp ! 2))
      = Inr (okResponse\<lparr>status := s, headers_etag := t\<rparr>)" for s t
    by (simp add: fiveParts_part)
  have bad1: "400 \<le> status (okResponse\<lparr>status := 500, headers_etag := None\<rparr>)
      \<or> headers_etag (okResponse\<lparr>status := 500, headers_etag := None\<rparr>) = None
      \<or> headers_etag (okResponse\<lparr>status := 500, headers_etag := None\<rparr>) = Some []"
    by simp
  have bad2: "400 \<le> status (okResponse\<lparr>status := 200, headers_etag := Some []\<rparr>)
      \<or> headers_etag (okResponse\<lparr>status := 200, headers_etag := Some []\<rparr>) = None
      \<or> headers_etag (okResponse\<lparr>status := 200, headers_etag := Some []\<rparr>) = Some []"
    by simp
  show ?thesis
    using part_failure_aborts_upload [OF ready p pre cur bad1]
      part_failure_aborts_upload [OF ready p pre cur bad2]
    by simp
qed

text \<open>
  C5 as stated fails for a response that is not 2xx and not an error either: the loop
  tests \<^verbatim>\<open>status >= 400\<close>, so a part answered with status 301 and an etag is
  accepted, and the finalize call is made.
\<close>

theorem redirect_status_is_accepted:
  "status (okResponse\<lparr>status := 301, headers_etag := Some (CHR 0x22 # ''abc'' @ [CHR 0x22])\<rparr>) = 301
   \<and> fst (doMultiPartUpload (fiveParts 2 301 (Some (CHR 0x22 # ''abc'' @ [CHR 0x22])))
          ''/a/b/video.mp4'') = Inr ()
   \<and> filter isFinalize (snd (doMultiPartUpload
          (fiveParts 2 301 (Some (CHR 0x22 # ''abc'' @ [CHR 0x22]))) ''/a/b/video.mp4''))
     = [CompleteMultiPartUpload ''video.mp4'' [''abc'', ''abc'', ''abc'', ''abc'', ''abc'']]"
proof -
  have "accepted (Inr (okResponse\<lparr>status := 301,
      headers_etag := Some (CHR 0x22 # ''abc'' @ [CHR 0x22])\<rparr>))"
    by (simp add: accepted_def)
  from fiveParts_accepted_run [OF this] show ?thesis
    by (simp add: responseEtag_def replaceAll_quotes_def)
qed

subsection \<open>The single-part upload\<close>

text \<open>
  C6, as the class has it. When the file can be read, its type is allowed and the URL is
  signed, the outcome of \<^verbatim>\<open>doSinglePartUpload\<close> is decided by the status of the response
  to the PUT: a status of 400 or more throws
  \<^verbatim>\<open>Error('Uploading a file to the cloud failed')\<close>, after the key, the status and the
  response body have been written to the error log; any lower status is a success. The
  error thrown carries the fixed message only.
\<close>

theorem doSinglePartUpload_status:
  assumes "stat e file = Inr sz"
    and "getContentType (basename e file) = (Inr ct, [])"
    and "sign_get e (basename e file) sz = Inr srsp"
    and "status srsp = 200"
    and "put e (data_signed srsp) = (loaded, Inr rsp)"
  shows "doSinglePartUpload e file =
     (let tr = [Stat file, SignPutUrl (basename e file) sz,
                PutObject (data_signed srsp) None sz ct]
               @ map (\<lambda>l. Progress (roundedPercent (of_nat sz) (of_nat l))) loaded
      in if 400 \<le> status rsp
         then (Inl (Error ''Uploading a file to the cloud failed''),
               tr @ [ConsoleError [''[CloudClient] File upload failed'', basename e file,
                                   natToString (status rsp), data rsp]])
         else (Inr (), tr))"
  using assms
  by (simp add: doSinglePartUpload_def Let_def andThen_def fs_stat_def signPutUrl_def)

theorem doSinglePartUpload_status_witness:
  "doSinglePartUpload
     (quietEnv\<lparr>put := (\<lambda>u. ([50, 100], Inr (okResponse\<lparr>status := 403, data := ''quota''\<rparr>)))\<rparr>)
     ''/a/b/video.mp4''
   = (Inl (Error ''Uploading a file to the cloud failed''),
      [Stat ''/a/b/video.mp4'', SignPutUrl ''video.mp4'' 100,
       PutObject ''https://r2/signed'' None 100 ''video/mp4'',
       Progress (roundedPercent 100 50), Progress (roundedPercent 100 100),
       ConsoleError [''[CloudClient] File upload failed'', ''video.mp4'', ''403'', ''quota'']])"
proof -
  let ?rsp = "okResponse\<lparr>status := 403, data := ''quota''\<rparr>"
  let ?e = "quietEnv\<lparr>put := (\<lambda>u. ([50, 100], Inr ?rsp))\<rparr>"
  have h1: "stat ?e ''/a/b/video.mp4'' = Inr 100"
    and h2: "getContentType (basename ?e ''/a/b/video.mp4'') = (Inr ''video/mp4'', [])"
    and h3: "sign_get ?e (basename ?e ''/a/b/video.mp4'') 100 = Inr okResponse"
    and h4: "status okResponse = 200"
    and h5: "put ?e (data_signed okResponse) = ([50, 100], Inr ?rsp)"
    by (simp_all add: quietEnv_single getContentType_mp4)
  show ?thesis
    using doSinglePartUpload_status [OF h1 h2 h3 h4 h5]
    by (simp add: quietEnv_single digitChar_def)
qed

text \<open>
  C6 as stated fails for a response that is not 2xx and below 400: the upload succeeds.
\<close>

theorem doSinglePartUpload_redirect_succeeds:
  "status (okResponse\<lparr>status := 301, data := ''moved''\<rparr>) = 301
   \<and> doSinglePartUpload
       (quietEnv\<lparr>put := (\<lambda>u. ([], Inr (okResponse\<lparr>status := 301, data := ''moved''\<rparr>)))\<rparr>)
       ''/a/b/video.mp4''
     = (Inr (),
        [Stat ''/a/b/video.mp4'', SignPutUrl ''video.mp4'' 100,
         PutObject ''https://r2/signed'' None 100 ''video/mp4''])"
  by (simp add: doSinglePartUpload_def Let_def andThen_def fs_stat_def signPutUrl_def
      quietEnv_single getContentType_mp4)

subsection \<open>The choice between the two uploads\<close>

lemma sizeThresholdBytes_value: "sizeThresholdBytes = 2758454771764429 / 524288"
  by code_simp

lemma below_threshold_iff: "of_nat sz < sizeThresholdBytes \<longleftrightarrow> sz \<le> 5261334937"
proof -
  have "(of_nat sz :: rat) < 2758454771764429 / 524288 \<longleftrightarrow> (of_nat sz :: rat) * 524288 < 2758454771764429"
    by (simp add: pos_less_divide_eq)
  also have "\<dots> \<longleftrightarrow> (of_nat (sz * 524288) :: rat) < of_nat 2758454771764429"
    by simp
  also have "\<dots> \<longleftrightarrow> sz * 524288 < 2758454771764429"
    by (rule of_nat_less_iff)
  also have "\<dots> \<longleftrightarrow> sz \<le> 5261334937"
    by arith
  finally show ?thesis
    by (simp add: sizeThresholdBytes_value)
qed

lemma below_exact_threshold_iff: "(of_nat sz :: rat) < 49 / 10 * 2 ^ 30 \<longleftrightarrow> sz \<le> 5261334937"
proof -
  have "(of_nat sz :: rat) < 49 / 10 * 2 ^ 30 \<longleftrightarrow> (of_nat sz :: rat) * 5 < 26306674688"
    by (simp add: pos_less_divide_eq)
  also have "\<dots> \<longleftrightarrow> (of_nat (sz * 5) :: rat) < of_nat 26306674688"
    by simp
  also have "\<dots> \<longleftrightarrow> sz * 5 < 26306674688"
    by (rule of_nat_less_iff)
  also have "\<dots> \<longleftrightarrow> sz \<le> 5261334937"
    by arith
  finally show ?thesis .
qed

lemma fst_thenUpdateLastMod:
  "fst (thenUpdateLastMod e c m)
     = (case fst m of Inl err \<Rightarrow> Inl err | Inr u \<Rightarrow> fst (updateLastMod e c))"
  by (simp add: thenUpdateLastMod_def split: prod.splits sum.splits)

lemma putFile_quietEnv:
  assumes "posix_basename file = ''video.mp4''"
  shows "putFile quietEnv c file =
     (Inr (), c\<lparr>bucketLastMod := ''1700000000000''\<rparr>,
      [Stat file, Stat file, SignPutUrl ''video.mp4'' 100,
       PutObject ''https://r2/signed'' None 100 ''video/mp4'', PostMtime ''1700000000000''])"
proof -
  have b: "basename quietEnv file = ''video.mp4''"
    using assms by (simp add: quietEnv_def)
  have g: "getTime quietEnv = 1700000000000" "mtime_post quietEnv m = Inr okResponse"
    "put quietEnv u = ([], Inr okResponse)" for m u
    by (simp_all add: quietEnv_def)
  have "doSinglePartUpload quietEnv file =
      (Inr (), [Stat file, SignPutUrl ''video.mp4'' 100,
                PutObject ''https://r2/signed'' None 100 ''video/mp4''])"
    by (simp add: doSinglePartUpload_def Let_def andThen_def fs_stat_def signPutUrl_def b g
        quietEnv_single getContentType_mp4)
  then show ?thesis
    by (simp add: putFile_def andThen_def fs_stat_def quietEnv_single below_threshold_iff
        thenUpdateLastMod_def updateLastMod_def Let_def g toString_millis axiosDefault_okResponse)
qed

text \<open>
  C4. Once the length of the file is known, \<^verbatim>\<open>putFile\<close> runs the single-part upload
  when the length is below \<open>4.9 * 2 ^ 30\<close> and the multi-part upload when it is that or
  more; a length equal to the threshold is on the multi-part side. The threshold of the
  program is the binary64 product \<^verbatim>\<open>4.9 * 1024 ** 3\<close>, which is a little above
  \<open>4.9 * 2 ^ 30\<close>; no whole number lies between the two, so the lengths below the one
  are the lengths below the other: those up to 5261334937 bytes.
\<close>

theorem putFile_strategy:
  assumes "stat e file = Inr sz"
  shows "(of_nat sz < (49 / 10 * 2 ^ 30 :: rat) \<longrightarrow>
            putFile e c file
              = thenUpdateLastMod e c (andThen (fs_stat e file) (\<lambda>_. doSinglePartUpload e file)))
       \<and> ((49 / 10 * 2 ^ 30 :: rat) \<le> of_nat sz \<longrightarrow>
            putFile e c file
              = thenUpdateLastMod e c (andThen (fs_stat e file) (\<lambda>_. doMultiPartUpload e file)))
       \<and> (of_nat sz < sizeThresholdBytes \<longleftrightarrow> of_nat sz < (49 / 10 * 2 ^ 30 :: rat))
       \<and> (of_nat sz < sizeThresholdBytes \<longleftrightarrow> sz \<le> 5261334937)"
proof -
  have same: "of_nat sz < sizeThresholdBytes \<longleftrightarrow> of_nat sz < (49 / 10 * 2 ^ 30 :: rat)"
    by (simp only: below_threshold_iff below_exact_threshold_iff)
  have pick: "andThen (fs_stat e file) (\<lambda>sz. if of_nat sz < sizeThresholdBytes
        then doSinglePartUpload e file else doMultiPartUpload e file)
      = andThen (fs_stat e file) (\<lambda>_. if of_nat sz < sizeThresholdBytes
        then doSinglePartUpload e file else doMultiPartUpload e file)"
    using assms by (simp add: andThen_def fs_stat_def)
  show ?thesis
    unfolding putFile_def pick
    using same below_threshold_iff [of sz] by (auto simp: not_less)
qed

theorem putFile_strategy_witness:
  "putFile quietEnv (guild ''0'') ''/a/b/video.mp4'' =
     (Inr (), guild ''1700000000000'',
      [Stat ''/a/b/video.mp4'', Stat ''/a/b/video.mp4'', SignPutUrl ''video.mp4'' 100,
       PutObject ''https://r2/signed'' None 100 ''video/mp4'', PostMtime ''1700000000000''])
   \<and> putFile (fiveParts 2 200 (Some ''xyz'')) (guild ''0'') ''/a/b/video.mp4''
     = thenUpdateLastMod (fiveParts 2 200 (Some ''xyz'')) (guild ''0'')
         (andThen (fs_stat (fiveParts 2 200 (Some ''xyz'')) ''/a/b/video.mp4'')
            (\<lambda>_. doMultiPartUpload (fiveParts 2 200 (Some ''xyz'')) ''/a/b/video.mp4''))
   \<and> fst (putFile (fiveParts 2 200 (Some ''xyz'')) (guild ''0'') ''/a/b/video.mp4'') = Inr ()"
proof -
  let ?e = "fiveParts 2 200 (Some ''xyz'')"
  have small: "stat quietEnv ''/a/b/video.mp4'' = Inr 100"
    by (simp add: quietEnv_single)
  have large: "stat ?e ''/a/b/video.mp4'' = Inr 5368709120"
    by (simp add: fiveParts_setup)
  have a: "putFile quietEnv (guild ''0'') ''/a/b/video.mp4''
      = thenUpdateLastMod quietEnv (guild ''0'')
          (andThen (fs_stat quietEnv ''/a/b/video.mp4'')
             (\<lambda>_. doSinglePartUpload quietEnv ''/a/b/video.mp4''))"
    using putFile_strategy [OF small, of "guild ''0''"] by simp
  have b: "putFile ?e (guild ''0'') ''/a/b/video.mp4''
      = thenUpdateLastMod ?e (guild ''0'')
          (andThen (fs_stat ?e ''/a/b/video.mp4'') (\<lambda>_. doMultiPartUpload ?e ''/a/b/video.mp4''))"
    using putFile_strategy [OF large, of "guild ''0''"] by simp
  have acc: "accepted (Inr (okResponse\<lparr>status := 200, headers_etag := Some ''xyz''\<rparr>))"
    by (simp add: accepted_def)
  have "mtime_post ?e m = Inr okResponse" for m
    by (simp add: fiveParts_def quietEnv_def)
  then have c: "fst (putFile ?e (guild ''0'') ''/a/b/video.mp4'') = Inr ()"
    unfolding b using fiveParts_accepted_run [OF acc]
    by (simp add: fst_thenUpdateLastMod updateLastMod_def Let_def fst_andThen fs_stat_def large
        axiosDefault_okResponse)
  from a b c show ?thesis
    using putFile_quietEnv [OF posix_basename_video, of "guild ''0''"] by (simp add: guild_def)
qed

subsection \<open>Rounding to binary64\<close>

lemma pow2_powi: "pow2 k = 2 powi k"
  by (simp add: pow2_def power_int_def inverse_eq_divide power_one_over)

lemma ilog2_bounds:
  assumes "0 < x"
  shows "2 powi (ilog2 x) \<le> x \<and> x < 2 powi (ilog2 x + 1)"
proof -
  obtain p q where pq: "quotient_of x = (p, q)"
    by force
  then have q: "0 < q"
    by (rule quotient_of_denom_pos)
  have x: "x = of_int p / of_int q"
    using pq by (rule quotient_of_div)
  have p: "0 < p"
    using assms x q by (simp add: zero_less_divide_iff)
  define bp where "bp = bitlen p"
  define bq where "bq = bitlen q"
  have bp1: "1 \<le> bp" and bq1: "1 \<le> bq"
    using p q by (auto simp: bp_def bq_def bitlen_alt_def)
  have "2 ^ nat (bp - 1) \<le> p" "p < 2 ^ nat bp" "2 ^ nat (bq - 1) \<le> q" "q < 2 ^ nat bq"
    using bitlen_bounds [OF p] bitlen_bounds [OF q] by (simp_all add: bp_def bq_def)
  then have "(of_int (2 ^ nat (bp - 1)) :: rat) \<le> of_int p" "(of_int p :: rat) < of_int (2 ^ nat bp)"
    "(of_int (2 ^ nat (bq - 1)) :: rat) \<le> of_int q" "(of_int q :: rat) < of_int (2 ^ nat bq)"
    by (simp_all only: of_int_le_iff of_int_less_iff)
  then have pl: "(2::rat) powi (bp - 1) \<le> of_int p" and pu: "(of_int p :: rat) < 2 powi bp"
    and ql: "(2::rat) powi (bq - 1) \<le> of_int q" and qu: "(of_int q :: rat) < 2 powi bq"
    using bp1 bq1 by (simp_all add: power_int_nonneg_exp)
  have upper: "x < 2 powi (bp - bq + 1)"
  proof -
    have "of_int p / of_int q < (2::rat) powi bp / 2 powi (bq - 1)"
      using p q pu ql by (intro frac_less) simp_all
    also have "\<dots> = 2 powi (bp - (bq - 1))"
      by (simp add: power_int_diff)
    finally show ?thesis
      by (simp add: x algebra_simps)
  qed
  have lower: "2 powi (bp - bq - 1) < x"
  proof -
    have "(2::rat) powi (bp - 1) / 2 powi bq < of_int p / of_int q"
      using q pl qu by (intro frac_less2) simp_all
    moreover have "(2::rat) powi (bp - 1) / 2 powi bq = 2 powi (bp - 1 - bq)"
      by (simp add: power_int_diff)
    ultimately show ?thesis
      by (simp add: x algebra_simps)
  qed
  have "ilog2 x = (if 2 powi (bp - bq) \<le> x then bp - bq else bp - bq - 1)"
    by (simp add: ilog2_def pq Let_def pow2_powi bp_def bq_def)
  then show ?thesis
    using upper lower by (auto simp: not_le)
qed

lemma roundHalfEven_range: "\<lfloor>x\<rfloor> \<le> roundHalfEven x \<and> roundHalfEven x \<le> \<lfloor>x\<rfloor> + 1"
  by (simp add: roundHalfEven_def Let_def)

lemma roundHalfEven_of_int: "roundHalfEven (of_int n) = n"
  by (simp add: roundHalfEven_def Let_def)

lemma roundHalfEven_close: "\<bar>of_int (roundHalfEven x) - x\<bar> \<le> 1 / 2"
proof -
  have "of_int \<lfloor>x\<rfloor> \<le> x" "x < of_int \<lfloor>x\<rfloor> + 1"
    by linarith+
  then show ?thesis
    by (auto simp: roundHalfEven_def Let_def)
qed

lemma roundHalfEven_mono:
  assumes "x \<le> y"
  shows "roundHalfEven x \<le> roundHalfEven y"
proof (cases "\<lfloor>x\<rfloor> = \<lfloor>y\<rfloor>")
  case True
  with assms show ?thesis
    by (auto simp: roundHalfEven_def Let_def)
next
  case False
  with assms have "\<lfloor>x\<rfloor> + 1 \<le> \<lfloor>y\<rfloor>"
    using floor_mono [of x y] by linarith
  then show ?thesis
    using roundHalfEven_range [of x] roundHalfEven_range [of y] by linarith
qed

lemma fl_pos_eq:
  "0 < x \<Longrightarrow> fl x = of_int (roundHalfEven (x / 2 powi (ilog2 x - 52))) * 2 powi (ilog2 x - 52)"
  by (simp add: fl_def Let_def pow2_powi)

lemma scaled_range:
  assumes "0 < x"
  shows "2 ^ 52 \<le> x / 2 powi (ilog2 x - 52) \<and> x / 2 powi (ilog2 x - 52) < 2 ^ 53"
proof -
  let ?e = "ilog2 x"
  have u: "(0::rat) < 2 powi (?e - 52)"
    by simp
  have a: "(2::rat) powi ?e = 2 ^ 52 * 2 powi (?e - 52)"
    by (simp add: power_int_diff)
  have b: "(2::rat) powi (?e + 1) = 2 ^ 53 * 2 powi (?e - 52)"
    by (simp add: power_int_diff power_int_add)
  from ilog2_bounds [OF assms] show ?thesis
    unfolding a b using u by (simp add: pos_le_divide_eq pos_divide_less_eq)
qed

lemma fl_pos_range:
  assumes "0 < x"
  shows "2 powi (ilog2 x) \<le> fl x \<and> fl x \<le> 2 powi (ilog2 x + 1)"
proof -
  let ?e = "ilog2 x"
  let ?y = "x / 2 powi (?e - 52)"
  have "roundHalfEven (of_int (2 ^ 52)) \<le> roundHalfEven ?y"
    using scaled_range [OF assms] by (intro roundHalfEven_mono) simp
  moreover have "roundHalfEven ?y \<le> roundHalfEven (of_int (2 ^ 53))"
    using scaled_range [OF assms] by (intro roundHalfEven_mono) simp
  ultimately have "2 ^ 52 \<le> roundHalfEven ?y" "roundHalfEven ?y \<le> 2 ^ 53"
    by (simp_all only: roundHalfEven_of_int)
  then have "(of_int (2 ^ 52) :: rat) \<le> of_int (roundHalfEven ?y)"
    "(of_int (roundHalfEven ?y) :: rat) \<le> of_int (2 ^ 53)"
    by (simp_all only: of_int_le_iff)
  then have "(2 ^ 52 :: rat) * 2 powi (?e - 52) \<le> fl x" "fl x \<le> 2 ^ 53 * 2 powi (?e - 52)"
    using assms by (simp_all add: fl_pos_eq)
  moreover have "(2::rat) powi ?e = 2 ^ 52 * 2 powi (?e - 52)"
    by (simp add: power_int_diff)
  moreover have "(2::rat) powi (?e + 1) = 2 ^ 53 * 2 powi (?e - 52)"
    by (simp add: power_int_diff power_int_add)
  ultimately show ?thesis
    by simp
qed

lemma fl_nonneg: "0 \<le> x \<Longrightarrow> 0 \<le> fl x"
proof (cases "x = 0")
  case True
  then show ?thesis by (simp add: fl_def)
next
  case False
  assume "0 \<le> x"
  with False have "0 < x" by simp
  from fl_pos_range [OF this] show ?thesis
    by (meson order_trans zero_le_power_int zero_le_numeral)
qed

lemma fl_mono:
  assumes "0 \<le> x" and "x \<le> y"
  shows "fl x \<le> fl y"
proof (cases "x = 0")
  case True
  with assms show ?thesis
    using fl_nonneg [of y] by (simp add: fl_def)
next
  case False
  with assms have x: "0 < x" and y: "0 < y"
    by simp_all
  have "2 powi (ilog2 x) \<le> x" "y < 2 powi (ilog2 y + 1)"
    using ilog2_bounds [OF x] ilog2_bounds [OF y] by simp_all
  with assms(2) have lt: "(2::rat) powi (ilog2 x) < 2 powi (ilog2 y + 1)"
    by linarith
  have le: "ilog2 x \<le> ilog2 y"
  proof (rule ccontr)
    assume "\<not> ilog2 x \<le> ilog2 y"
    then have "ilog2 y + 1 \<le> ilog2 x"
      by simp
    then have "(2::rat) powi (ilog2 y + 1) \<le> 2 powi (ilog2 x)"
      by (intro power_int_increasing) simp_all
    with lt show False
      by linarith
  qed
  show ?thesis
  proof (cases "ilog2 x = ilog2 y")
    case True
    have "roundHalfEven (x / 2 powi (ilog2 y - 52)) \<le> roundHalfEven (y / 2 powi (ilog2 y - 52))"
      using assms(2) by (intro roundHalfEven_mono divide_right_mono) simp_all
    then have "(of_int (roundHalfEven (x / 2 powi (ilog2 y - 52))) :: rat)
        \<le> of_int (roundHalfEven (y / 2 powi (ilog2 y - 52)))"
      by (simp only: of_int_le_iff)
    then show ?thesis
      using x y True by (simp add: fl_pos_eq mult_right_mono)
  next
    case False
    with le have "ilog2 x + 1 \<le> ilog2 y"
      by simp
    then have "(2::rat) powi (ilog2 x + 1) \<le> 2 powi (ilog2 y)"
      by (intro power_int_increasing) simp_all
    then show ?thesis
      using fl_pos_range [OF x] fl_pos_range [OF y] by linarith
  qed
qed

lemma fl_error:
  assumes "0 < x"
  shows "\<bar>fl x - x\<bar> \<le> x / 2 ^ 53"
proof -
  let ?u = "(2::rat) powi (ilog2 x - 52)"
  let ?y = "x / ?u"
  have u: "0 < ?u"
    by simp
  have "fl x - x = (of_int (roundHalfEven ?y) - ?y) * ?u"
    using assms u by (simp add: fl_pos_eq algebra_simps)
  then have "\<bar>fl x - x\<bar> = \<bar>of_int (roundHalfEven ?y) - ?y\<bar> * ?u"
    using u by (simp add: abs_mult)
  also have "\<dots> \<le> 1 / 2 * ?u"
    using roundHalfEven_close [of ?y] u by (intro mult_right_mono) simp_all
  also have "\<dots> = 2 powi (ilog2 x) / 2 ^ 53"
    by (simp add: power_int_diff)
  also have "\<dots> \<le> x / 2 ^ 53"
    using ilog2_bounds [OF assms] by (intro divide_right_mono) simp_all
  finally show ?thesis .
qed

subsection \<open>The trace of the loop\<close>

lemma partBytes_shift:
  "off + partBytes r + min (r - partBytes r) t = off + min r (partSizeBytes + t)"
  "r - (partBytes r + min (r - partBytes r) t) = r - min r (partSizeBytes + t)"
  by (auto simp: partBytes_def min_def)

lemma partBytes_step:
  "off + partBytes r + min (r - partBytes r) (q * partSizeBytes) = off + min r (Suc q * partSizeBytes)"
  "r - (partBytes r + min (r - partBytes r) (q * partSizeBytes)) = r - min r (Suc q * partSizeBytes)"
  "min r (Suc 0 * partSizeBytes) = partBytes r"
  by (simp_all add: partBytes_shift) (simp add: partBytes_def min_def)

lemma uploadPart_accepted_trace:
  assumes "accepted (snd (part_put e part url))"
  shows "snd (uploadPart e key ct n url part off r) =
     PutObject url (Some (off, off + partBytes r)) (partBytes r) ct
     # map (\<lambda>l. Progress (partProgress (of_nat part) (of_nat n) (of_nat (partBytes r)) (of_nat l)))
         (fst (part_put e part url))"
  using assms
  by (auto simp: uploadPart_def Let_def accepted_def split: sum.splits option.splits)

lemma uploadParts_trace:
  assumes "\<forall>q<length rest. accepted (snd (part_put e (part + q) (rest ! q)))"
  shows "snd (uploadParts e key ct sz n rest part off r etags) =
     concat (map (\<lambda>q.
        PutObject (rest ! q)
          (Some (off + min r (q * partSizeBytes), off + min r (Suc q * partSizeBytes)))
          (partBytes (r - min r (q * partSizeBytes))) ct
        # map (\<lambda>l. Progress (partProgress (of_nat (part + q)) (of_nat n)
                               (of_nat (partBytes (r - min r (q * partSizeBytes)))) (of_nat l)))
            (fst (part_put e (part + q) (rest ! q)))
        @ [Progress (roundedPercent (of_nat sz) (of_nat (off + min r (Suc q * partSizeBytes))))])
       [0..<length rest])"
  using assms
proof (induction rest arbitrary: part off r etags)
  case Nil
  show ?case by simp
next
  case (Cons url rest)
  from Cons.prems have a0: "accepted (snd (part_put e part url))"
    by force
  from Cons.prems have rest: "\<forall>q<length rest. accepted (snd (part_put e (Suc part + q) (rest ! q)))"
    by force
  have ok: "fst (uploadPart e key ct n url part off r) = Inr (replaceAll_quotes (responseEtag (snd (part_put e part url))))"
    using uploadPart_result [of e key ct n url part off r] a0
    by (auto simp: accepted_def split: sum.splits)
  have upt: "[0..<length (url # rest)] = 0 # map Suc [0..<length rest]"
    by (simp add: upt_conv_Cons map_Suc_upt del: upt_Suc)
  show ?case
    unfolding upt
    using Cons.IH [OF rest, of "off + partBytes r" "r - partBytes r"] ok
      uploadPart_accepted_trace [OF a0, of key ct n off r]
    by (simp add: fst_andThen snd_andThen comp_def partBytes_step
        del: upt_Suc mult_Suc of_nat_add of_nat_Suc)
qed

lemma partStart_Suc: "partStart sz p + partLength sz p = partStart sz (Suc p)"
  by (auto simp: partStart_def partLength_def partBytes_def min_def)

lemma partStart_0: "partStart sz 0 = 0"
  by (simp add: partStart_def)

lemma partStart_mono: "p \<le> q \<Longrightarrow> partStart sz p \<le> partStart sz q"
  by (simp add: partStart_def min_le_iff_disj)

lemma partLength_sum: "(\<Sum>p<n. partLength sz p) = partStart sz n"
  by (induction n) (simp_all add: partStart_0 partStart_Suc)

lemma partStart_all: "sz \<le> n * partSizeBytes \<Longrightarrow> partStart sz n = sz"
  by (simp add: partStart_def)

lemma partLength_pos:
  assumes "(n - 1) * partSizeBytes < sz" and "p < n"
  shows "0 < partLength sz p"
proof -
  from assms(2) have "p * partSizeBytes \<le> (n - 1) * partSizeBytes"
    by (intro mult_right_mono) simp_all
  with assms(1) have "partStart sz p < sz"
    unfolding partStart_def by linarith
  then show ?thesis
    by (simp add: partLength_def partBytes_def partSizeBytes_def)
qed

lemma doMultiPartUpload_trace:
  assumes "stat e file = Inr sz"
    and "getContentType (basename e file) = (Inr ct, [])"
    and "create_get e (basename e file) sz = Inr crsp"
    and "status crsp = 200"
    and "\<forall>p<length (data_urls crsp). accepted (snd (part_put e p (data_urls crsp ! p)))"
  shows "\<exists>tokens. doMultiPartUpload e file =
     (fst (completeMultiPartUpload e (basename e file) tokens),
      [Stat file, CreateMultiPartUpload (basename e file) sz]
      @ concat (map (\<lambda>p.
          PutObject (data_urls crsp ! p) (Some (partStart sz p, partStart sz (Suc p)))
            (partLength sz p) ct
          # map (\<lambda>l. Progress (partProgress (of_nat p) (of_nat (length (data_urls crsp)))
                                 (of_nat (partLength sz p)) (of_nat l)))
              (fst (part_put e p (data_urls crsp ! p)))
          @ [Progress (roundedPercent (of_nat sz) (of_nat (partStart sz (Suc p))))])
         [0..<length (data_urls crsp)])
      @ snd (completeMultiPartUpload e (basename e file) tokens))"
proof -
  let ?urls = "data_urls crsp"
  let ?loop = "uploadParts e (basename e file) ct sz (length ?urls) ?urls 0 0 sz []"
  have acc: "\<forall>q<length ?urls. accepted (snd (part_put e (0 + q) (?urls ! q)))"
    using assms(5) by simp
  obtain tokens where tokens: "fst ?loop = Inr tokens"
    using uploadParts_accepts [OF acc] by blast
  have "snd ?loop = concat (map (\<lambda>p.
          PutObject (?urls ! p) (Some (partStart sz p, partStart sz (Suc p))) (partLength sz p) ct
          # map (\<lambda>l. Progress (partProgress (of_nat p) (of_nat (length ?urls))
                                 (of_nat (partLength sz p)) (of_nat l)))
              (fst (part_put e p (?urls ! p)))
          @ [Progress (roundedPercent (of_nat sz) (of_nat (partStart sz (Suc p))))])
         [0..<length ?urls])"
    using uploadParts_trace [OF acc, of "basename e file" ct sz "length ?urls" 0 sz "[]"]
    by (simp add: partStart_def partLength_def del: mult_Suc)
  with tokens show ?thesis
    using doMultiPartUpload_unfold [OF assms(1-4)]
    by (cases ?loop) auto
qed

subsection \<open>The object key\<close>

lemma doSinglePartUpload_keys:
  "\<forall>ev\<in>set (snd (doSinglePartUpload e file)). \<forall>k. eventKey ev = Some k \<longrightarrow> k = basename e file"
  unfolding doSinglePartUpload_def Let_def
  by (intro andThen_events)
     (auto simp: fs_stat_def getContentType_def signPutUrl_def split: sum.splits if_splits)

lemma doMultiPartUpload_keys:
  "\<forall>ev\<in>set (snd (doMultiPartUpload e file)). \<forall>k. eventKey ev = Some k \<longrightarrow> k = basename e file"
  unfolding doMultiPartUpload_def Let_def
  by (intro andThen_events)
     (use uploadParts_events in \<open>auto simp: fs_stat_def getContentType_def createMultiPartUpload_def
        completeMultiPartUpload_def split: sum.splits if_splits\<close>)

lemma putFile_keys:
  "\<forall>ev\<in>set (snd (snd (putFile e c file))). \<forall>k. eventKey ev = Some k \<longrightarrow> k = basename e file"
proof -
  let ?m = "andThen (fs_stat e file) (\<lambda>sz.
          if of_nat sz < sizeThresholdBytes
          then doSinglePartUpload e file
          else doMultiPartUpload e file)"
  have "\<forall>ev\<in>set (snd ?m). \<forall>k. eventKey ev = Some k \<longrightarrow> k = basename e file"
    by (intro andThen_events)
       (use doSinglePartUpload_keys doMultiPartUpload_keys in \<open>auto simp: fs_stat_def\<close>)
  then show ?thesis
    using thenUpdateLastMod_events [of e c ?m]
    unfolding putFile_def by fastforce
qed

lemma getContentType_allowed:
  "fst (getContentType key) = Inr ct \<Longrightarrow> getContentType key = (Inr ct, [])"
  by (auto simp: getContentType_def split: if_splits)

lemma doSinglePartUpload_requests:
  assumes "fst (doSinglePartUpload e file) = Inr ()" and "stat e file = Inr sz"
  shows "\<exists>ct srsp. getContentType (basename e file) = (Inr ct, [])
           \<and> sign_get e (basename e file) sz = Inr srsp
           \<and> filter isRequest (snd (doSinglePartUpload e file))
             = [SignPutUrl (basename e file) sz, PutObject (data_signed srsp) None sz ct]"
proof -
  let ?K = "basename e file"
  from assms obtain ct where "fst (getContentType ?K) = Inr ct"
    by (auto simp: doSinglePartUpload_def Let_def fst_andThen fs_stat_def split: sum.splits)
  then have ct: "getContentType ?K = (Inr ct, [])"
    by (rule getContentType_allowed)
  from assms ct obtain srsp where srsp: "sign_get e ?K sz = Inr srsp" "status srsp = 200"
    by (auto simp: doSinglePartUpload_def Let_def fst_andThen fs_stat_def signPutUrl_def
        split: sum.splits if_splits)
  from assms ct srsp
  have "filter isRequest (snd (doSinglePartUpload e file))
      = [SignPutUrl ?K sz, PutObject (data_signed srsp) None sz ct]"
    by (auto simp: doSinglePartUpload_def Let_def andThen_def fs_stat_def signPutUrl_def
        filter_map comp_def split: sum.splits if_splits)
  with ct srsp show ?thesis
    by blast
qed

lemma uploadParts_success:
  assumes "fst (uploadParts e key ct sz n rest part off rem etags) = Inr ts"
  shows "\<forall>q<length rest. accepted (snd (part_put e (part + q) (rest ! q)))"
  using assms
proof (induction rest arbitrary: part off rem etags)
  case Nil
  show ?case by simp
next
  case (Cons url rest)
  from Cons.prems obtain t where up: "fst (uploadPart e key ct n url part off rem) = Inr t"
    and rest: "fst (uploadParts e key ct sz n rest (Suc part) (off + partBytes rem)
                      (rem - partBytes rem) (etags @ [t])) = Inr ts"
    by (auto simp: fst_andThen split: sum.splits)
  from up have a0: "accepted (snd (part_put e part url))"
    using uploadPart_result [of e key ct n url part off rem]
    by (auto simp: accepted_def split: sum.splits if_splits)
  from Cons.IH [OF rest]
  have "\<forall>q<length rest. accepted (snd (part_put e (Suc part + q) (rest ! q)))" .
  with a0 show ?case
    by (auto simp: less_Suc_eq_0_disj)
qed

lemma requests_parts:
  "filter isRequest (concat (map (\<lambda>p. PutObject (u p) (r p) (n p) ct
       # map (\<lambda>l. Progress (f p l)) (ls p) @ [Progress (g p)]) ps))
   = map (\<lambda>p. PutObject (u p) (r p) (n p) ct) ps"
  by (induction ps) (simp_all add: filter_map comp_def)

lemma completeMultiPartUpload_requests:
  "filter isRequest (snd (completeMultiPartUpload e key etags))
     = [CompleteMultiPartUpload key etags]"
  by (simp add: completeMultiPartUpload_def split: sum.splits)

lemma doMultiPartUpload_requests:
  assumes "fst (doMultiPartUpload e file) = Inr ()" and "stat e file = Inr sz"
  shows "\<exists>ct crsp. getContentType (basename e file) = (Inr ct, [])
           \<and> create_get e (basename e file) sz = Inr crsp
           \<and> filter isRequest (snd (doMultiPartUpload e file))
             = CreateMultiPartUpload (basename e file) sz
               # map (\<lambda>p. PutObject (data_urls crsp ! p)
                             (Some (partStart sz p, partStart sz (Suc p))) (partLength sz p) ct)
                   [0..<length (data_urls crsp)]
               @ [CompleteMultiPartUpload (basename e file)
                    (map (\<lambda>p. replaceAll_quotes
                                (responseEtag (snd (part_put e p (data_urls crsp ! p)))))
                       [0..<length (data_urls crsp)])]"
proof -
  let ?K = "basename e file"
  from assms obtain ct where "fst (getContentType ?K) = Inr ct"
    by (auto simp: doMultiPartUpload_def Let_def fst_andThen fs_stat_def split: sum.splits)
  then have ct: "getContentType ?K = (Inr ct, [])"
    by (rule getContentType_allowed)
  from assms ct obtain crsp where crsp: "create_get e ?K sz = Inr crsp" "status crsp = 200"
    by (auto simp: doMultiPartUpload_def Let_def fst_andThen fs_stat_def createMultiPartUpload_def
        split: sum.splits if_splits)
  let ?urls = "data_urls crsp"
  let ?loop = "uploadParts e ?K ct sz (length ?urls) ?urls 0 0 sz []"
  let ?tokens = "map (\<lambda>p. replaceAll_quotes (responseEtag (snd (part_put e p (?urls ! p)))))
                   [0..<length ?urls]"
  note unf = doMultiPartUpload_unfold [OF assms(2) ct crsp]
  from assms(1) obtain etags where loop: "fst ?loop = Inr etags"
    unfolding unf by (cases ?loop; cases "fst ?loop") auto
  from uploadParts_success [OF loop]
  have acc: "\<forall>q<length ?urls. accepted (snd (part_put e (0 + q) (?urls ! q)))" .
  have tokens: "fst ?loop = Inr ?tokens"
    using uploadParts_accepts [OF acc, of ?K ct sz "length ?urls" 0 sz "[]"] by simp
  have tr: "snd ?loop = concat (map (\<lambda>p.
          PutObject (?urls ! p) (Some (partStart sz p, partStart sz (Suc p))) (partLength sz p) ct
          # map (\<lambda>l. Progress (partProgress (of_nat p) (of_nat (length ?urls))
                                 (of_nat (partLength sz p)) (of_nat l)))
              (fst (part_put e p (?urls ! p)))
          @ [Progress (roundedPercent (of_nat sz) (of_nat (partStart sz (Suc p))))])
         [0..<length ?urls])"
    using uploadParts_trace [OF acc, of ?K ct sz "length ?urls" 0 sz "[]"]
    by (simp add: partStart_def partLength_def del: mult_Suc)
  have "snd (doMultiPartUpload e file)
      = [Stat file, CreateMultiPartUpload ?K sz] @ snd ?loop
        @ snd (completeMultiPartUpload e ?K ?tokens)"
    unfolding unf using tokens by (cases ?loop) auto
  then have "filter isRequest (snd (doMultiPartUpload e file))
      = CreateMultiPartUpload ?K sz
        # map (\<lambda>p. PutObject (?urls ! p) (Some (partStart sz p, partStart sz (Suc p)))
                      (partLength sz p) ct) [0..<length ?urls]
        @ [CompleteMultiPartUpload ?K ?tokens]"
    by (simp add: tr requests_parts completeMultiPartUpload_requests)
  with ct crsp(1) show ?thesis
    by blast
qed

lemma putFile_fiveParts:
  assumes "accepted (Inr (okResponse\<lparr>status := s, headers_etag := t\<rparr>))"
  shows "fst (putFile (fiveParts 2 s t) c ''/a/b/video.mp4'') = Inr ()"
proof -
  let ?e = "fiveParts 2 s t"
  have "\<not> (of_nat (5368709120 :: nat) < sizeThresholdBytes)"
    unfolding below_threshold_iff by simp
  then have "putFile ?e c ''/a/b/video.mp4''
      = thenUpdateLastMod ?e c
          (andThen (fs_stat ?e ''/a/b/video.mp4'') (\<lambda>_. doMultiPartUpload ?e ''/a/b/video.mp4''))"
    by (simp add: putFile_def andThen_def fs_stat_def fiveParts_setup)
  moreover have "mtime_post ?e m = Inr okResponse" for m
    by (simp add: fiveParts_def quietEnv_def)
  ultimately show ?thesis
    using fiveParts_accepted_run [OF assms]
    by (simp add: fst_thenUpdateLastMod updateLastMod_def Let_def fst_andThen fs_stat_def
        fiveParts_setup axiosDefault_okResponse)
qed

text \<open>
  C10. In the trace of \<^verbatim>\<open>putFile\<close> every request that names an object key (signing,
  creating the multi-part upload, finalizing it) names the basename of the file path.
  A successful call has made these requests, in this order, and no other. For a file
  below the threshold: the signing request for the basename and the length of the file,
  the PUT of the whole file to the URL that request answered with, and the post of the
  clock. For a larger file: the create request for the basename and the length of the
  file, one PUT for each URL of its answer, in order and to that URL, of the bytes of
  that part, the finalize request for the basename with the tokens of the parts in
  order, and the post of the clock. Two paths with the same basename therefore name the
  same key in all their requests.
\<close>

theorem putFile_key_is_basename:
  "(\<forall>ev\<in>set (snd (snd (putFile e c file))). \<forall>k. eventKey ev = Some k \<longrightarrow> k = basename e file)
   \<and> (fst (putFile e c file) = Inr () \<longrightarrow>
        (\<exists>sz ct. stat e file = Inr sz \<and> getContentType (basename e file) = (Inr ct, [])
           \<and> (of_nat sz < sizeThresholdBytes \<longrightarrow>
                (\<exists>srsp. sign_get e (basename e file) sz = Inr srsp
                   \<and> filter isRequest (snd (snd (putFile e c file)))
                     = [SignPutUrl (basename e file) sz,
                        PutObject (data_signed srsp) None sz ct,
                        PostMtime (toString (getTime e))]))
           \<and> (\<not> of_nat sz < sizeThresholdBytes \<longrightarrow>
                (\<exists>crsp. create_get e (basename e file) sz = Inr crsp
                   \<and> filter isRequest (snd (snd (putFile e c file)))
                     = CreateMultiPartUpload (basename e file) sz
                       # map (\<lambda>p. PutObject (data_urls crsp ! p)
                                     (Some (partStart sz p, partStart sz (Suc p)))
                                     (partLength sz p) ct)
                           [0..<length (data_urls crsp)]
                       @ [CompleteMultiPartUpload (basename e file)
                            (map (\<lambda>p. replaceAll_quotes
                                        (responseEtag (snd (part_put e p (data_urls crsp ! p)))))
                               [0..<length (data_urls crsp)]),
                          PostMtime (toString (getTime e))]))))
   \<and> (basename e file = basename e file' \<longrightarrow>
        (\<forall>ev\<in>set (snd (snd (putFile e c file))). \<forall>ev'\<in>set (snd (snd (putFile e c' file'))).
           \<forall>k k'. eventKey ev = Some k \<and> eventKey ev' = Some k' \<longrightarrow> k = k'))"
proof -
  let ?K = "basename e file"
  let ?tr = "snd (snd (putFile e c file))"
  let ?m = "andThen (fs_stat e file) (\<lambda>sz.
          if of_nat sz < sizeThresholdBytes
          then doSinglePartUpload e file
          else doMultiPartUpload e file)"
  have success: "\<exists>sz ct. stat e file = Inr sz \<and> getContentType ?K = (Inr ct, [])
           \<and> (of_nat sz < sizeThresholdBytes \<longrightarrow>
                (\<exists>srsp. sign_get e ?K sz = Inr srsp
                   \<and> filter isRequest ?tr
                     = [SignPutUrl ?K sz, PutObject (data_signed srsp) None sz ct,
                        PostMtime (toString (getTime e))]))
           \<and> (\<not> of_nat sz < sizeThresholdBytes \<longrightarrow>
                (\<exists>crsp. create_get e ?K sz = Inr crsp
                   \<and> filter isRequest ?tr
                     = CreateMultiPartUpload ?K sz
                       # map (\<lambda>p. PutObject (data_urls crsp ! p)
                                     (Some (partStart sz p, partStart sz (Suc p)))
                                     (partLength sz p) ct)
                           [0..<length (data_urls crsp)]
                       @ [CompleteMultiPartUpload ?K
                            (map (\<lambda>p. replaceAll_quotes
                                        (responseEtag (snd (part_put e p (data_urls crsp ! p)))))
                               [0..<length (data_urls crsp)]),
                          PostMtime (toString (getTime e))]))"
    if ok: "fst (putFile e c file) = Inr ()"
  proof -
    from ok have tr: "?tr = snd ?m @ [PostMtime (toString (getTime e))]"
      and m: "fst ?m = Inr ()"
      using thenUpdateLastMod_ok [of e c ?m] unfolding putFile_def by simp_all
    from m obtain sz where sz: "stat e file = Inr sz"
      by (auto simp: fst_andThen fs_stat_def split: sum.splits)
    show ?thesis
    proof (cases "of_nat sz < sizeThresholdBytes")
      case True
      with m sz have run: "fst (doSinglePartUpload e file) = Inr ()"
        and "snd ?m = Stat file # snd (doSinglePartUpload e file)"
        by (simp_all add: fst_andThen snd_andThen fs_stat_def)
      with tr have "filter isRequest ?tr
          = filter isRequest (snd (doSinglePartUpload e file)) @ [PostMtime (toString (getTime e))]"
        by simp
      with doSinglePartUpload_requests [OF run sz] sz True show ?thesis
        by auto
    next
      case False
      with m sz have run: "fst (doMultiPartUpload e file) = Inr ()"
        and "snd ?m = Stat file # snd (doMultiPartUpload e file)"
        by (simp_all add: fst_andThen snd_andThen fs_stat_def)
      with tr have "filter isRequest ?tr
          = filter isRequest (snd (doMultiPartUpload e file)) @ [PostMtime (toString (getTime e))]"
        by simp
      with doMultiPartUpload_requests [OF run sz] sz False show ?thesis
        by auto
    qed
  qed
  have same: "\<forall>ev\<in>set ?tr. \<forall>ev'\<in>set (snd (snd (putFile e c' file'))).
           \<forall>k k'. eventKey ev = Some k \<and> eventKey ev' = Some k' \<longrightarrow> k = k'"
    if "basename e file = basename e file'"
    using putFile_keys [of e c "file"] putFile_keys [of e c' file'] that by auto
  show ?thesis
    using putFile_keys [of e c "file"] success same by blast
qed

theorem putFile_key_is_basename_witness:
  "''/a/b/video.mp4'' \<noteq> ''/x/video.mp4''
   \<and> basename quietEnv ''/a/b/video.mp4'' = basename quietEnv ''/x/video.mp4''
   \<and> fst (putFile quietEnv (guild ''0'') ''/a/b/video.mp4'') = Inr ()
   \<and> filter isRequest (snd (snd (putFile quietEnv (guild ''0'') ''/a/b/video.mp4'')))
     = [SignPutUrl ''video.mp4'' 100, PutObject ''https://r2/signed'' None 100 ''video/mp4'',
        PostMtime ''1700000000000'']
   \<and> filter isRequest (snd (snd (putFile quietEnv (guild ''0'') ''/x/video.mp4'')))
     = [SignPutUrl ''video.mp4'' 100, PutObject ''https://r2/signed'' None 100 ''video/mp4'',
        PostMtime ''1700000000000'']
   \<and> fst (putFile (fiveParts 2 200 (Some ''xyz'')) (guild ''0'') ''/a/b/video.mp4'') = Inr ()
   \<and> filter isRequest
       (snd (snd (putFile (fiveParts 2 200 (Some ''xyz'')) (guild ''0'') ''/a/b/video.mp4'')))
     = [CreateMultiPartUpload ''video.mp4'' 5368709120,
        PutObject ''u0'' (Some (0, 1073741824)) 1073741824 ''video/mp4'',
        PutObject ''u1'' (Some (1073741824, 2147483648)) 1073741824 ''video/mp4'',
        PutObject ''u2'' (Some (2147483648, 3221225472)) 1073741824 ''video/mp4'',
        PutObject ''u3'' (Some (3221225472, 4294967296)) 1073741824 ''video/mp4'',
        PutObject ''u4'' (Some (4294967296, 5368709120)) 1073741824 ''video/mp4'',
        CompleteMultiPartUpload ''video.mp4'' [''abc'', ''abc'', ''xyz'', ''abc'', ''abc''],
        PostMtime ''1700000000000'']"
proof -
  let ?f = "''/a/b/video.mp4''"
  let ?e = "fiveParts 2 200 (Some ''xyz'')"
  let ?crsp = "okResponse\<lparr>data_urls := [''u0'', ''u1'', ''u2'', ''u3'', ''u4'']\<rparr>"
  have x: "posix_basename ''/x/video.mp4'' = ''video.mp4''"
    by (simp add: posix_basename_def)
  have b: "basename quietEnv ?f = ''video.mp4''"
    "basename quietEnv ''/x/video.mp4'' = ''video.mp4''"
    by (simp_all add: quietEnv_def posix_basename_def)
  note run2 = putFile_quietEnv [OF x, of "guild ''0''"]
  have ok: "fst (putFile quietEnv (guild ''0'') ?f) = Inr ()"
    by (simp add: putFile_quietEnv [OF posix_basename_video])
  have small: "of_nat (100 :: nat) < sizeThresholdBytes"
    unfolding below_threshold_iff by simp
  have large: "\<not> of_nat (5368709120 :: nat) < sizeThresholdBytes"
    unfolding below_threshold_iff by simp
  have t: "getTime quietEnv = 1700000000000" "getTime ?e = 1700000000000"
    by (simp_all add: fiveParts_def quietEnv_def)
  have acc: "accepted (Inr (okResponse\<lparr>status := 200, headers_etag := Some ''xyz''\<rparr>))"
    by (simp add: accepted_def)
  have ok5: "fst (putFile ?e (guild ''0'') ?f) = Inr ()"
    using acc by (rule putFile_fiveParts)
  from putFile_key_is_basename [of quietEnv "guild ''0''" ?f "''/x/video.mp4''" "guild ''0''"] ok
  have "filter isRequest (snd (snd (putFile quietEnv (guild ''0'') ?f)))
      = [SignPutUrl ''video.mp4'' 100, PutObject ''https://r2/signed'' None 100 ''video/mp4'',
         PostMtime ''1700000000000'']"
    using small by (auto simp: quietEnv_single getContentType_mp4 t toString_millis)
  moreover
  from putFile_key_is_basename [of ?e "guild ''0''" ?f ?f "guild ''0''"] ok5
  have "filter isRequest (snd (snd (putFile ?e (guild ''0'') ?f)))
      = [CreateMultiPartUpload ''video.mp4'' 5368709120,
         PutObject ''u0'' (Some (0, 1073741824)) 1073741824 ''video/mp4'',
         PutObject ''u1'' (Some (1073741824, 2147483648)) 1073741824 ''video/mp4'',
         PutObject ''u2'' (Some (2147483648, 3221225472)) 1073741824 ''video/mp4'',
         PutObject ''u3'' (Some (3221225472, 4294967296)) 1073741824 ''video/mp4'',
         PutObject ''u4'' (Some (4294967296, 5368709120)) 1073741824 ''video/mp4'',
         CompleteMultiPartUpload ''video.mp4'' [''abc'', ''abc'', ''xyz'', ''abc'', ''abc''],
         PostMtime ''1700000000000'']"
    using large
    by (auto simp: fiveParts_setup getContentType_mp4 t toString_millis fiveParts_part
        partStart_def partLength_def partBytes_def partSizeBytes_def responseEtag_def
        replaceAll_quotes_def okResponse_def)
  ultimately show ?thesis
    using ok ok5 b by (simp add: run2)
qed

subsection \<open>The bytes read for each part\<close>

lemma readRanges_append: "readRanges sz (xs @ ys) = readRanges sz xs @ readRanges sz ys"
  by (simp add: readRanges_def)

lemma readRanges_progress: "readRanges sz (map (\<lambda>l. Progress (f l)) ls) = []"
  by (induction ls) (simp_all add: readRanges_def)

lemma readRanges_complete: "readRanges sz (snd (completeMultiPartUpload e key tokens)) = []"
  by (simp add: completeMultiPartUpload_def readRanges_def split: sum.splits)

lemma readRanges_parts:
  "readRanges sz (concat (map (\<lambda>p. PutObject (u p) (Some (a p, b p)) (n p) ct
       # map (\<lambda>l. Progress (f p l)) (ls p) @ [Progress (g p)]) ps))
   = map (\<lambda>p. streamRange sz (Some (a p, b p))) ps"
proof (induction ps)
  case Nil
  show ?case by (simp add: readRanges_def)
next
  case (Cons p ps)
  have "readRanges sz (PutObject (u p) (Some (a p, b p)) (n p) ct
       # map (\<lambda>l. Progress (f p l)) (ls p) @ [Progress (g p)]) = [streamRange sz (Some (a p, b p))]"
    using readRanges_progress [of sz "f p" "ls p"] by (simp add: readRanges_def)
  with Cons show ?case
    by (simp add: readRanges_append del: append_Cons) 
qed

text \<open>
  C1 fails on the code. A file of 5 GiB is uploaded in five parts. The loop keeps a
  correct account of the file: the Content-Length headers are 1 GiB each and add up to the
  length of the file. But the read stream of a part is opened with \<^verbatim>\<open>end: offset + bytes\<close>,
  and the end of a read stream is inclusive: each part but the last reads one byte more
  than its Content-Length, the byte at which the next part starts, so that the ranges
  read overlap and their lengths add up to four bytes more than the file has.
\<close>

theorem doMultiPartUpload_reads_overlap:
  "fst (doMultiPartUpload (fiveParts 2 200 (Some ''xyz'')) ''/a/b/video.mp4'') = Inr ()
   \<and> filter isPartPut (snd (doMultiPartUpload (fiveParts 2 200 (Some ''xyz'')) ''/a/b/video.mp4''))
     = [PutObject ''u0'' (Some (0, 1073741824)) 1073741824 ''video/mp4'',
        PutObject ''u1'' (Some (1073741824, 2147483648)) 1073741824 ''video/mp4'',
        PutObject ''u2'' (Some (2147483648, 3221225472)) 1073741824 ''video/mp4'',
        PutObject ''u3'' (Some (3221225472, 4294967296)) 1073741824 ''video/mp4'',
        PutObject ''u4'' (Some (4294967296, 5368709120)) 1073741824 ''video/mp4'']
   \<and> readRanges 5368709120
        (snd (doMultiPartUpload (fiveParts 2 200 (Some ''xyz'')) ''/a/b/video.mp4''))
     = [(0, 1073741825), (1073741824, 2147483649), (2147483648, 3221225473),
        (3221225472, 4294967297), (4294967296, 5368709120)]
   \<and> sum_list (map (\<lambda>(first, next). next - first) (readRanges 5368709120
        (snd (doMultiPartUpload (fiveParts 2 200 (Some ''xyz'')) ''/a/b/video.mp4''))))
     = 5368709124"
proof -
  let ?e = "fiveParts 2 200 (Some ''xyz'')"
  let ?crsp = "okResponse\<lparr>data_urls := [''u0'', ''u1'', ''u2'', ''u3'', ''u4'']\<rparr>"
  have acc: "\<forall>p<length (data_urls ?crsp). accepted (snd (part_put ?e p (data_urls ?crsp ! p)))"
    by (simp add: fiveParts_part accepted_def okResponse_def)
  have h1: "stat ?e ''/a/b/video.mp4'' = Inr 5368709120"
    and h2: "getContentType (basename ?e ''/a/b/video.mp4'') = (Inr ''video/mp4'', [])"
    and h3: "create_get ?e (basename ?e ''/a/b/video.mp4'') 5368709120 = Inr ?crsp"
    and h4: "status ?crsp = 200"
    by (simp_all add: fiveParts_setup getContentType_mp4)
  have len: "length (data_urls ?crsp) = 5"
    by simp
  have loaded: "fst (part_put ?e p u) = []" for p u
    by (simp add: fiveParts_def quietEnv_def)
  have ok: "fst (doMultiPartUpload ?e ''/a/b/video.mp4'') = Inr ()"
    using fiveParts_accepted_run [where s = 200 and t = "Some ''xyz''"] by (simp add: accepted_def)
  from doMultiPartUpload_trace [OF h1 h2 h3 h4 acc] obtain tokens where
    tr: "snd (doMultiPartUpload ?e ''/a/b/video.mp4'') =
      [Stat ''/a/b/video.mp4'', CreateMultiPartUpload ''video.mp4'' 5368709120,
       PutObject ''u0'' (Some (0, 1073741824)) 1073741824 ''video/mp4'',
       Progress (roundedPercent 5368709120 1073741824),
       PutObject ''u1'' (Some (1073741824, 2147483648)) 1073741824 ''video/mp4'',
       Progress (roundedPercent 5368709120 2147483648),
       PutObject ''u2'' (Some (2147483648, 3221225472)) 1073741824 ''video/mp4'',
       Progress (roundedPercent 5368709120 3221225472),
       PutObject ''u3'' (Some (3221225472, 4294967296)) 1073741824 ''video/mp4'',
       Progress (roundedPercent 5368709120 4294967296),
       PutObject ''u4'' (Some (4294967296, 5368709120)) 1073741824 ''video/mp4'',
       Progress (roundedPercent 5368709120 5368709120)]
      @ snd (completeMultiPartUpload ?e ''video.mp4'' tokens)"
    unfolding len upt_5
    by (auto simp: fiveParts_setup loaded partStart_def partLength_def partBytes_def
        partSizeBytes_def)
  have fin: "filter isPartPut (snd (completeMultiPartUpload ?e ''video.mp4'' tokens)) = []"
    by (simp add: completeMultiPartUpload_def split: sum.splits)
  have rr: "readRanges sz (ev # evs) = readRange sz ev @ readRanges sz evs" for sz ev evs
    by (simp add: readRanges_def)
  show ?thesis
    using ok by (simp add: tr fin rr readRanges_complete streamRange_def)
qed

subsection \<open>Progress values\<close>

lemma progressValues_append:
  "progressValues (xs @ ys) = progressValues xs @ progressValues ys"
  by (simp add: progressValues_def)

lemma progressValues_Cons:
  "progressValues (ev # evs) = progressValue ev @ progressValues evs"
  by (simp add: progressValues_def)

lemma progressValues_Nil: "progressValues [] = []"
  by (simp add: progressValues_def)

lemma progressValues_map: "progressValues (map (\<lambda>l. Progress (f l)) ls) = map f ls"
  by (induction ls) (simp_all add: progressValues_def)

lemma progressValues_complete:
  "progressValues (snd (completeMultiPartUpload e key tokens)) = []"
  by (simp add: completeMultiPartUpload_def progressValues_def split: sum.splits)

lemma roundedPercent_pos:
  "0 < sz \<Longrightarrow> roundedPercent sz n = Some \<lfloor>fl (fl (100 * n) / sz) + 1 / 2\<rfloor>"
  by (simp add: roundedPercent_def Math_round_def num_div_def num_mul_def)

lemma roundedPercent_mono:
  assumes "0 < sz" and "0 \<le> n" and "n \<le> m"
  shows "reportedLe (roundedPercent sz n) (roundedPercent sz m)"
proof -
  have "fl (100 * n) \<le> fl (100 * m)"
    using assms by (intro fl_mono) simp_all
  then have "fl (100 * n) / sz \<le> fl (100 * m) / sz"
    using assms(1) by (intro divide_right_mono) simp_all
  moreover have "0 \<le> fl (100 * n) / sz"
    using assms fl_nonneg [of "100 * n"] by simp
  ultimately have "fl (fl (100 * n) / sz) \<le> fl (fl (100 * m) / sz)"
    by (rule fl_mono [rotated])
  then have "\<lfloor>fl (fl (100 * n) / sz) + 1 / 2\<rfloor> \<le> \<lfloor>fl (fl (100 * m) / sz) + 1 / 2\<rfloor>"
    by (intro floor_mono) simp
  then show ?thesis
    using assms(1) by (simp add: roundedPercent_pos reportedLe_def)
qed

lemma roundedPercent_full:
  assumes "0 < sz"
  shows "roundedPercent sz sz = Some 100"
proof -
  define a where "a = fl (100 * sz)"
  define y where "y = a / sz"
  define b where "b = fl y"
  have "\<bar>a - 100 * sz\<bar> \<le> 100 * sz / 2 ^ 53"
    unfolding a_def using assms by (intro fl_error) simp
  then have "\<bar>a - 100 * sz\<bar> / sz \<le> (100 * sz / 2 ^ 53) / sz"
    using assms by (intro divide_right_mono) simp_all
  moreover have "\<bar>a - 100 * sz\<bar> / sz = \<bar>y - 100\<bar>"
  proof -
    have "(a - 100 * sz) / sz = y - 100"
      using assms by (simp add: y_def diff_divide_distrib)
    then have "\<bar>y - 100\<bar> = \<bar>(a - 100 * sz) / sz\<bar>"
      by simp
    also have "\<dots> = \<bar>a - 100 * sz\<bar> / \<bar>sz\<bar>"
      by (rule abs_divide)
    finally show ?thesis
      using assms by simp
  qed
  ultimately have y: "\<bar>y - 100\<bar> \<le> 100 / 2 ^ 53"
    using assms by simp
  have small: "(100::rat) / 2 ^ 53 \<le> 1 / 8"
    by simp
  from y small have yb: "100 - 1 / 8 \<le> y" "y \<le> 100 + 1 / 8"
    by linarith+
  then have ypos: "0 < y"
    by linarith
  have "y / 2 ^ 53 \<le> 1 / 8"
    using yb(2) by simp
  moreover have "\<bar>b - y\<bar> \<le> y / 2 ^ 53"
    unfolding b_def using ypos by (rule fl_error)
  ultimately have "100 \<le> b + 1 / 2" "b + 1 / 2 < 100 + 1"
    using yb by linarith+
  then have "\<lfloor>b + 1 / 2\<rfloor> = 100"
    by (intro floor_unique) simp_all
  then show ?thesis
    using assms by (simp add: roundedPercent_pos a_def y_def b_def)
qed

lemma partProgress_mono:
  assumes "0 < n" and "0 < b" and "0 \<le> p" and "0 \<le> l" and "l \<le> l'"
  shows "reportedLe (partProgress p n b l) (partProgress p n b l')"
proof -
  define prev where "prev = fl (100 * fl (p / n))"
  define w where "w = fl (1 / n)"
  define cur where "cur x = fl (100 * fl (x / b))" for x
  have prev: "0 \<le> prev"
    unfolding prev_def using assms by (intro fl_nonneg mult_nonneg_nonneg) simp_all
  have w: "0 \<le> w"
    unfolding w_def using assms by (intro fl_nonneg) simp
  have cur0: "0 \<le> cur l"
    unfolding cur_def using assms by (intro fl_nonneg mult_nonneg_nonneg) simp_all
  have "fl (l / b) \<le> fl (l' / b)"
    using assms by (intro fl_mono divide_right_mono) simp_all
  moreover have "0 \<le> fl (l / b)"
    using assms by (intro fl_nonneg) simp
  ultimately have cur: "cur l \<le> cur l'"
    unfolding cur_def by (intro fl_mono) simp_all
  have "fl (w * cur l) \<le> fl (w * cur l')"
    using w cur cur0 by (intro fl_mono mult_left_mono mult_nonneg_nonneg)
  moreover have "0 \<le> fl (w * cur l)"
    using w cur0 by (intro fl_nonneg mult_nonneg_nonneg)
  ultimately have "fl (prev + fl (w * cur l)) \<le> fl (prev + fl (w * cur l'))"
    using prev by (intro fl_mono) simp_all
  then have "\<lfloor>fl (prev + fl (w * cur l)) + 1 / 2\<rfloor> \<le> \<lfloor>fl (prev + fl (w * cur l')) + 1 / 2\<rfloor>"
    by (intro floor_mono) simp
  then show ?thesis
    using assms(1,2)
    by (simp add: partProgress_def Math_round_def num_div_def num_mul_def num_add_def Let_def
        reportedLe_def prev_def w_def cur_def)
qed

lemma sorted_reported:
  assumes "\<And>x y. x \<le> y \<Longrightarrow> reportedLe (f x) (f y)" and "sorted xs"
  shows "sorted_wrt reportedLe (map f (xs :: nat list))"
  using assms(2)
  by (simp add: sorted_wrt_map) (rule sorted_wrt_mono_rel [rotated], assumption, simp add: assms(1))

lemma progressValues_parts:
  "progressValues (concat (map (\<lambda>p. PutObject (u p) (r p) (n p) ct
       # map (\<lambda>l. Progress (f p l)) (ls p) @ [Progress (g p)]) ps))
   = concat (map (\<lambda>p. map (f p) (ls p) @ [g p]) ps)"
proof (induction ps)
  case Nil
  show ?case by (simp add: progressValues_Nil)
next
  case (Cons p ps)
  have "progressValues (PutObject (u p) (r p) (n p) ct
       # map (\<lambda>l. Progress (f p l)) (ls p) @ [Progress (g p)]) = map (f p) (ls p) @ [g p]"
    by (simp add: progressValues_Cons progressValues_append progressValues_map progressValues_Nil)
  with Cons show ?case
    by (simp add: progressValues_append del: append_Cons)
qed

lemma doSinglePartUpload_progress:
  assumes "stat e file = Inr sz"
  shows "progressValues (snd (doSinglePartUpload e file)) = []
       \<or> (\<exists>u. progressValues (snd (doSinglePartUpload e file))
               = map (\<lambda>l. roundedPercent (of_nat sz) (of_nat l)) (fst (put e u)))"
  using assms
  by (auto simp: doSinglePartUpload_def Let_def andThen_def fs_stat_def getContentType_def
      signPutUrl_def progressValues_Cons progressValues_append progressValues_map
      progressValues_Nil split: sum.splits)

lemma roundedPercent_nat_mono:
  "0 < sz \<Longrightarrow> l \<le> l' \<Longrightarrow>
     reportedLe (roundedPercent (of_nat sz) (of_nat l)) (roundedPercent (of_nat sz) (of_nat l'))"
  by (intro roundedPercent_mono) simp_all

lemma last_concat_upt:
  assumes "0 < n"
  shows "last (concat (map (\<lambda>p. h p @ [g p]) [0..<n])) = g (n - 1)"
proof -
  from assms obtain m where n: "n = Suc m"
    by (cases n) simp_all
  show ?thesis
    by (simp add: n)
qed

lemma doMultiPartUpload_progress:
  assumes "stat e file = Inr sz"
    and "getContentType (basename e file) = (Inr ct, [])"
    and "create_get e (basename e file) sz = Inr crsp"
    and "status crsp = 200"
    and "\<forall>p<length (data_urls crsp). accepted (snd (part_put e p (data_urls crsp ! p)))"
  shows "progressValues (snd (doMultiPartUpload e file))
      = concat (map (\<lambda>p.
          map (\<lambda>l. partProgress (of_nat p) (of_nat (length (data_urls crsp)))
                      (of_nat (partLength sz p)) (of_nat l))
            (fst (part_put e p (data_urls crsp ! p)))
          @ [roundedPercent (of_nat sz) (of_nat (partStart sz (Suc p)))])
         [0..<length (data_urls crsp)])"
  using doMultiPartUpload_trace [OF assms]
  by (auto simp: progressValues_append progressValues_Cons progressValues_Nil
      progressValues_complete progressValues_parts)

lemma doSinglePartUpload_values:
  assumes "stat e file = Inr sz"
    and "getContentType (basename e file) = (Inr ct, [])"
    and "sign_get e (basename e file) sz = Inr srsp"
    and "status srsp = 200"
  shows "progressValues (snd (doSinglePartUpload e file))
       = map (\<lambda>l. roundedPercent (of_nat sz) (of_nat l)) (fst (put e (data_signed srsp)))"
  using assms
  by (auto simp: doSinglePartUpload_def Let_def andThen_def fs_stat_def signPutUrl_def
      progressValues_Cons progressValues_append progressValues_map progressValues_Nil
      split: sum.splits)

lemma getAsFile_progress:
  assumes "size_get e key = Inr zrsp"
  shows "progressValues (snd (getAsFile e key url dir)) = []
       \<or> (\<exists>orsp loaded r. object_get e url = Inr (orsp, loaded, r)
             \<and> progressValues (snd (getAsFile e key url dir))
               = map (\<lambda>l. roundedPercent (of_nat (data_size zrsp)) (of_nat l)) loaded)"
  using assms
  by (auto simp: getAsFile_def axiosDefault_def progressValues_Cons progressValues_append
      progressValues_map progressValues_Nil split: sum.splits)

lemma getAsFile_values:
  assumes "axiosDefault (size_get e key) = Inr zrsp"
    and "object_get e url = Inr (orsp, loaded, finished)"
    and "200 \<le> status orsp" and "status orsp < 300"
  shows "progressValues (snd (getAsFile e key url dir))
       = map (\<lambda>l. roundedPercent (of_nat (data_size zrsp)) (of_nat l)) loaded"
proof -
  have "axiosDefault (Inr orsp) = Inr orsp"
    using assms(3,4) by (simp add: axiosDefault_def)
  then show ?thesis
    using assms(1,2)
    by (simp add: getAsFile_def progressValues_Cons progressValues_append progressValues_map
        progressValues_Nil)
qed

lemma last_roundedPercent:
  assumes "0 < sz" and "loaded \<noteq> []" and "last loaded = sz"
  shows "last (map (\<lambda>l. roundedPercent (of_nat sz) (of_nat l)) loaded) = Some 100"
  using assms by (simp add: last_map roundedPercent_full)

text \<open>
  C2, as the class has it, for a file or object of more than zero bytes. In a single-part
  upload whose URL has been signed, and in a download whose two requests are answered
  with a 2xx status, the values reported are exactly \<^verbatim>\<open>Math.round((100 * loaded) / size)\<close>
  for the byte counts the transport reports, in the order it reports them; they do not
  go down when those counts do not, and when the last count is \<open>size\<close> the last value is
  100. In a multi-part upload whose parts are all accepted and whose number of parts is
  the number of GiB of the file, rounded up, the values are, part after part, the values
  reported while the part is sent followed by the value reported when it is complete.
  The values reported while one part is sent do not go down, the values reported at the
  completion of the parts do not go down, and the last value reported is 100. Nothing is
  said about a value reported while a part is sent against the completion value before
  it.
\<close>

theorem progress_by_segment:
  assumes "0 < sz"
  shows "(stat e file = Inr sz \<and> getContentType (basename e file) = (Inr ct, [])
            \<and> sign_get e (basename e file) sz = Inr srsp \<and> status srsp = 200 \<longrightarrow>
            progressValues (snd (doSinglePartUpload e file))
              = map (\<lambda>l. roundedPercent (of_nat sz) (of_nat l)) (fst (put e (data_signed srsp)))
            \<and> (fst (put e (data_signed srsp)) \<noteq> []
                 \<and> last (fst (put e (data_signed srsp))) = sz \<longrightarrow>
                 last (progressValues (snd (doSinglePartUpload e file))) = Some 100))
       \<and> (stat e file = Inr sz \<and> (\<forall>u. sorted (fst (put e u))) \<longrightarrow>
            sorted_wrt reportedLe (progressValues (snd (doSinglePartUpload e file))))
       \<and> (axiosDefault (size_get e key) = Inr zrsp \<and> data_size zrsp = sz
            \<and> object_get e url = Inr (orsp, loaded, finished)
            \<and> 200 \<le> status orsp \<and> status orsp < 300 \<longrightarrow>
            progressValues (snd (getAsFile e key url dir))
              = map (\<lambda>l. roundedPercent (of_nat sz) (of_nat l)) loaded
            \<and> (loaded \<noteq> [] \<and> last loaded = sz \<longrightarrow>
                 last (progressValues (snd (getAsFile e key url dir))) = Some 100))
       \<and> (size_get e key = Inr zrsp \<and> data_size zrsp = sz
            \<and> (\<forall>rsp ls r. object_get e url = Inr (rsp, ls, r) \<longrightarrow> sorted ls) \<longrightarrow>
            sorted_wrt reportedLe (progressValues (snd (getAsFile e key url dir))))
       \<and> (stat e file = Inr sz \<and> getContentType (basename e file) = (Inr ct, [])
            \<and> create_get e (basename e file) sz = Inr crsp \<and> status crsp = 200
            \<and> (\<forall>p<length (data_urls crsp). accepted (snd (part_put e p (data_urls crsp ! p))))
            \<and> (\<forall>p<length (data_urls crsp). sorted (fst (part_put e p (data_urls crsp ! p))))
            \<and> (length (data_urls crsp) - 1) * partSizeBytes < sz
            \<and> sz \<le> length (data_urls crsp) * partSizeBytes \<longrightarrow>
            progressValues (snd (doMultiPartUpload e file))
              = concat (map (\<lambda>p.
                  map (\<lambda>l. partProgress (of_nat p) (of_nat (length (data_urls crsp)))
                              (of_nat (partLength sz p)) (of_nat l))
                    (fst (part_put e p (data_urls crsp ! p)))
                  @ [roundedPercent (of_nat sz) (of_nat (partStart sz (Suc p)))])
                 [0..<length (data_urls crsp)])
            \<and> (\<forall>p<length (data_urls crsp).
                  sorted_wrt reportedLe
                    (map (\<lambda>l. partProgress (of_nat p) (of_nat (length (data_urls crsp)))
                                (of_nat (partLength sz p)) (of_nat l))
                       (fst (part_put e p (data_urls crsp ! p)))))
            \<and> sorted_wrt reportedLe
                  (map (\<lambda>p. roundedPercent (of_nat sz) (of_nat (partStart sz (Suc p))))
                     [0..<length (data_urls crsp)])
            \<and> last (progressValues (snd (doMultiPartUpload e file))) = Some 100)"
proof (intro conjI impI)
  assume h: "stat e file = Inr sz \<and> getContentType (basename e file) = (Inr ct, [])
      \<and> sign_get e (basename e file) sz = Inr srsp \<and> status srsp = 200"
  then have g1: "stat e file = Inr sz"
    and g2: "getContentType (basename e file) = (Inr ct, [])"
    and g3: "sign_get e (basename e file) sz = Inr srsp" and g4: "status srsp = 200"
    by simp_all
  show vals: "progressValues (snd (doSinglePartUpload e file))
      = map (\<lambda>l. roundedPercent (of_nat sz) (of_nat l)) (fst (put e (data_signed srsp)))"
    using g1 g2 g3 g4 by (rule doSinglePartUpload_values)
  assume "fst (put e (data_signed srsp)) \<noteq> [] \<and> last (fst (put e (data_signed srsp))) = sz"
  then show "last (progressValues (snd (doSinglePartUpload e file))) = Some 100"
    unfolding vals using assms by (intro last_roundedPercent) simp_all
next
  assume h: "stat e file = Inr sz \<and> (\<forall>u. sorted (fst (put e u)))"
  have "sorted_wrt reportedLe (map (\<lambda>l. roundedPercent (of_nat sz) (of_nat l)) (fst (put e u)))"
    for u
    using h assms by (intro sorted_reported roundedPercent_nat_mono) simp_all
  then show "sorted_wrt reportedLe (progressValues (snd (doSinglePartUpload e file)))"
    using doSinglePartUpload_progress [of e "file" sz] h by auto
next
  assume h: "axiosDefault (size_get e key) = Inr zrsp \<and> data_size zrsp = sz
      \<and> object_get e url = Inr (orsp, loaded, finished)
      \<and> 200 \<le> status orsp \<and> status orsp < 300"
  then have g1: "axiosDefault (size_get e key) = Inr zrsp"
    and g2: "object_get e url = Inr (orsp, loaded, finished)"
    and g3: "200 \<le> status orsp" and g4: "status orsp < 300"
    by simp_all
  have "progressValues (snd (getAsFile e key url dir))
      = map (\<lambda>l. roundedPercent (of_nat (data_size zrsp)) (of_nat l)) loaded"
    using g1 g2 g3 g4 by (rule getAsFile_values)
  with h show vals: "progressValues (snd (getAsFile e key url dir))
      = map (\<lambda>l. roundedPercent (of_nat sz) (of_nat l)) loaded"
    by simp
  assume "loaded \<noteq> [] \<and> last loaded = sz"
  then show "last (progressValues (snd (getAsFile e key url dir))) = Some 100"
    unfolding vals using assms by (intro last_roundedPercent) simp_all
next
  assume h: "size_get e key = Inr zrsp \<and> data_size zrsp = sz
      \<and> (\<forall>rsp ls r. object_get e url = Inr (rsp, ls, r) \<longrightarrow> sorted ls)"
  have "sorted_wrt reportedLe (map (\<lambda>l. roundedPercent (of_nat sz) (of_nat l)) ls)"
    if "sorted ls" for ls
    using that assms by (intro sorted_reported roundedPercent_nat_mono) simp_all
  then show "sorted_wrt reportedLe (progressValues (snd (getAsFile e key url dir)))"
    using getAsFile_progress [of e key zrsp url dir] h by auto
next
  let ?n = "length (data_urls crsp)"
  assume h: "stat e file = Inr sz \<and> getContentType (basename e file) = (Inr ct, [])
      \<and> create_get e (basename e file) sz = Inr crsp \<and> status crsp = 200
      \<and> (\<forall>p<?n. accepted (snd (part_put e p (data_urls crsp ! p))))
      \<and> (\<forall>p<?n. sorted (fst (part_put e p (data_urls crsp ! p))))
      \<and> (?n - 1) * partSizeBytes < sz \<and> sz \<le> ?n * partSizeBytes"
  then have h1: "stat e file = Inr sz" and h2: "getContentType (basename e file) = (Inr ct, [])"
    and h3: "create_get e (basename e file) sz = Inr crsp" and h4: "status crsp = 200"
    and h5: "\<forall>p<?n. accepted (snd (part_put e p (data_urls crsp ! p)))"
    and h6: "\<forall>p<?n. sorted (fst (part_put e p (data_urls crsp ! p)))"
    and h7: "(?n - 1) * partSizeBytes < sz" and h8: "sz \<le> ?n * partSizeBytes"
    by simp_all
  show vals: "progressValues (snd (doMultiPartUpload e file))
      = concat (map (\<lambda>p.
          map (\<lambda>l. partProgress (of_nat p) (of_nat ?n) (of_nat (partLength sz p)) (of_nat l))
            (fst (part_put e p (data_urls crsp ! p)))
          @ [roundedPercent (of_nat sz) (of_nat (partStart sz (Suc p)))])
         [0..<?n])"
    using h1 h2 h3 h4 h5 by (rule doMultiPartUpload_progress)
  from assms h8 have n: "0 < ?n"
    by (cases "?n") simp_all
  show "\<forall>p<?n. sorted_wrt reportedLe
      (map (\<lambda>l. partProgress (of_nat p) (of_nat ?n) (of_nat (partLength sz p)) (of_nat l))
         (fst (part_put e p (data_urls crsp ! p))))"
  proof (intro allI impI)
    fix p assume p: "p < ?n"
    have "0 < partLength sz p"
      using h7 p by (rule partLength_pos)
    then have "reportedLe
        (partProgress (of_nat p) (of_nat ?n) (of_nat (partLength sz p)) (of_nat l))
        (partProgress (of_nat p) (of_nat ?n) (of_nat (partLength sz p)) (of_nat l'))"
      if "l \<le> l'" for l l' :: nat
      using n that by (intro partProgress_mono) simp_all
    then show "sorted_wrt reportedLe
        (map (\<lambda>l. partProgress (of_nat p) (of_nat ?n) (of_nat (partLength sz p)) (of_nat l))
           (fst (part_put e p (data_urls crsp ! p))))"
      using h6 p by (intro sorted_reported) simp_all
  qed
  show "sorted_wrt reportedLe
      (map (\<lambda>p. roundedPercent (of_nat sz) (of_nat (partStart sz (Suc p)))) [0..<?n])"
    using assms
    by (intro sorted_reported roundedPercent_nat_mono partStart_mono) simp_all
  have "last (progressValues (snd (doMultiPartUpload e file)))
      = roundedPercent (of_nat sz) (of_nat (partStart sz (Suc (?n - 1))))"
    unfolding vals using n by (rule last_concat_upt)
  also have "Suc (?n - 1) = ?n"
    using n by simp
  also have "partStart sz ?n = sz"
    using h8 by (rule partStart_all)
  finally show "last (progressValues (snd (doMultiPartUpload e file))) = Some 100"
    using assms by (simp add: roundedPercent_full)
qed

lemma sixParts_setup:
  "stat sixParts ''/a/b/video.mp4'' = Inr 5368709121"
  "basename sixParts ''/a/b/video.mp4'' = ''video.mp4''"
  "create_get sixParts ''video.mp4'' 5368709121
     = Inr (okResponse\<lparr>data_urls := [''u0'', ''u1'', ''u2'', ''u3'', ''u4'', ''u5'']\<rparr>)"
  "complete_post sixParts k ts = Inr okResponse"
  "part_put sixParts p u =
     (if p < 5 then [65536, 1073741824] else [1],
      Inr (okResponse\<lparr>headers_etag := Some (CHR 0x22 # ''abc'' @ [CHR 0x22])\<rparr>))"
  by (simp_all add: sixParts_def quietEnv_def posix_basename_def)

lemma upt_6: "[0..<6] = [0, 1, 2, 3, 4, 5]"
  by (simp add: upt_rec)

lemma sixParts_in_part:
  "partProgress 0 6 1073741824 65536 = Some 0"
  "partProgress 0 6 1073741824 1073741824 = Some 17"
  "partProgress 1 6 1073741824 65536 = Some 17"
  "partProgress 1 6 1073741824 1073741824 = Some 33"
  "partProgress 2 6 1073741824 65536 = Some 33"
  "partProgress 2 6 1073741824 1073741824 = Some 50"
  "partProgress 3 6 1073741824 65536 = Some 50"
  "partProgress 3 6 1073741824 1073741824 = Some 67"
  "partProgress 4 6 1073741824 65536 = Some 67"
  "partProgress 4 6 1073741824 1073741824 = Some 83"
  "partProgress 5 6 1 1 = Some 100"
  by code_simp+

lemma sixParts_done:
  "roundedPercent 5368709121 1073741824 = Some 20"
  "roundedPercent 5368709121 2147483648 = Some 40"
  "roundedPercent 5368709121 3221225472 = Some 60"
  "roundedPercent 5368709121 4294967296 = Some 80"
  "roundedPercent 5368709121 5368709120 = Some 100"
  "roundedPercent 5368709121 5368709121 = Some 100"
  by code_simp+

lemma sixParts_hyps:
  "getContentType (basename sixParts ''/a/b/video.mp4'') = (Inr ''video/mp4'', [])"
  "create_get sixParts (basename sixParts ''/a/b/video.mp4'') 5368709121
     = Inr (okResponse\<lparr>data_urls := [''u0'', ''u1'', ''u2'', ''u3'', ''u4'', ''u5'']\<rparr>)"
  "status (okResponse\<lparr>data_urls := [''u0'', ''u1'', ''u2'', ''u3'', ''u4'', ''u5'']\<rparr>) = 200"
  "\<forall>p<length (data_urls (okResponse\<lparr>data_urls := [''u0'', ''u1'', ''u2'', ''u3'', ''u4'', ''u5'']\<rparr>)).
     accepted (snd (part_put sixParts p
       (data_urls (okResponse\<lparr>data_urls := [''u0'', ''u1'', ''u2'', ''u3'', ''u4'', ''u5'']\<rparr>) ! p)))"
  "\<forall>p<length (data_urls (okResponse\<lparr>data_urls := [''u0'', ''u1'', ''u2'', ''u3'', ''u4'', ''u5'']\<rparr>)).
     sorted (fst (part_put sixParts p
       (data_urls (okResponse\<lparr>data_urls := [''u0'', ''u1'', ''u2'', ''u3'', ''u4'', ''u5'']\<rparr>) ! p)))"
  by (simp_all add: sixParts_setup getContentType_mp4 accepted_def okResponse_def)

lemma sixParts_values:
  "progressValues (snd (doMultiPartUpload sixParts ''/a/b/video.mp4''))
     = map Some [0, 17, 20, 17, 33, 40, 33, 50, 60, 50, 67, 80, 67, 83, 100, 100, 100]"
proof -
  let ?crsp = "okResponse\<lparr>data_urls := [''u0'', ''u1'', ''u2'', ''u3'', ''u4'', ''u5'']\<rparr>"
  have len: "length (data_urls ?crsp) = 6"
    by simp
  have "progressValues (snd (doMultiPartUpload sixParts ''/a/b/video.mp4''))
      = concat (map (\<lambda>p.
          map (\<lambda>l. partProgress (of_nat p) (of_nat (length (data_urls ?crsp)))
                      (of_nat (partLength 5368709121 p)) (of_nat l))
            (fst (part_put sixParts p (data_urls ?crsp ! p)))
          @ [roundedPercent (of_nat 5368709121) (of_nat (partStart 5368709121 (Suc p)))])
         [0..<length (data_urls ?crsp)])"
    using sixParts_setup(1) sixParts_hyps(1-4) by (rule doMultiPartUpload_progress)
  also have "\<dots> = map Some [0, 17, 20, 17, 33, 40, 33, 50, 60, 50, 67, 80, 67, 83, 100, 100, 100]"
    unfolding len upt_6
    by (simp add: sixParts_setup partStart_def partLength_def partBytes_def partSizeBytes_def
        sixParts_in_part sixParts_done)
  finally show ?thesis .
qed

lemma percent_of_100:
  "roundedPercent 100 25 = Some 25"
  "roundedPercent 100 50 = Some 50"
  "roundedPercent 100 100 = Some 100"
  by code_simp+

theorem progress_by_segment_witness:
  "0 < (5368709121 :: nat)
   \<and> stat sixParts ''/a/b/video.mp4'' = Inr 5368709121
   \<and> sorted_wrt reportedLe [Some 20, Some 40, Some 60, Some 80, Some 100, Some 100]
   \<and> last (progressValues (snd (doMultiPartUpload sixParts ''/a/b/video.mp4''))) = Some 100
   \<and> progressValues
       (snd (doSinglePartUpload (quietEnv\<lparr>put := (\<lambda>u. ([50, 100], Inr okResponse))\<rparr>)
               ''/a/b/video.mp4''))
     = [Some 50, Some 100]
   \<and> progressValues
       (snd (getAsFile (quietEnv\<lparr>object_get := (\<lambda>u. Inr (okResponse, [25, 100], Inr ()))\<rparr>)
               ''video.mp4'' ''https://r2/get'' ''/tmp''))
     = [Some 25, Some 100]"
proof -
  let ?crsp = "okResponse\<lparr>data_urls := [''u0'', ''u1'', ''u2'', ''u3'', ''u4'', ''u5'']\<rparr>"
  let ?e1 = "quietEnv\<lparr>put := (\<lambda>u. ([50, 100], Inr okResponse))\<rparr>"
  let ?e2 = "quietEnv\<lparr>object_get := (\<lambda>u. Inr (okResponse, [25, 100], Inr ()))\<rparr>"
  have pos: "0 < (5368709121 :: nat)" and pos100: "0 < (100 :: nat)"
    by simp_all
  have len: "length (data_urls ?crsp) = 6"
    by simp
  have fits: "(length (data_urls ?crsp) - 1) * partSizeBytes < 5368709121"
    "5368709121 \<le> length (data_urls ?crsp) * partSizeBytes"
    by (simp_all add: partSizeBytes_def)
  note concl = progress_by_segment [OF pos, of sixParts "''/a/b/video.mp4''" "''video/mp4''"
      _ _ _ _ _ _ _ _ ?crsp]
  from concl sixParts_setup(1) sixParts_hyps fits
  have a: "sorted_wrt reportedLe
      (map (\<lambda>p. roundedPercent (of_nat 5368709121) (of_nat (partStart 5368709121 (Suc p))))
         [0..<length (data_urls ?crsp)])"
    and b: "last (progressValues (snd (doMultiPartUpload sixParts ''/a/b/video.mp4''))) = Some 100"
    by blast+
  from a have a': "sorted_wrt reportedLe [Some 20, Some 40, Some 60, Some 80, Some 100, Some 100]"
    unfolding len upt_6
    by (simp add: partStart_def partSizeBytes_def sixParts_done)
  have s: "stat ?e1 ''/a/b/video.mp4'' = Inr 100
      \<and> getContentType (basename ?e1 ''/a/b/video.mp4'') = (Inr ''video/mp4'', [])
      \<and> sign_get ?e1 (basename ?e1 ''/a/b/video.mp4'') 100 = Inr okResponse
      \<and> status okResponse = 200"
    by (simp add: quietEnv_single getContentType_mp4)
  have p: "fst (put ?e1 (data_signed okResponse)) = [50, 100]"
    by simp
  from progress_by_segment [OF pos100, of ?e1 "''/a/b/video.mp4''" "''video/mp4''" okResponse] s
  have "progressValues (snd (doSinglePartUpload ?e1 ''/a/b/video.mp4''))
      = map (\<lambda>l. roundedPercent (of_nat 100) (of_nat l)) (fst (put ?e1 (data_signed okResponse)))"
    by blast
  then have c: "progressValues (snd (doSinglePartUpload ?e1 ''/a/b/video.mp4''))
      = [Some 50, Some 100]"
    unfolding p by (simp add: percent_of_100)
  have d: "axiosDefault (size_get ?e2 ''video.mp4'') = Inr okResponse
      \<and> data_size okResponse = 100
      \<and> object_get ?e2 ''https://r2/get'' = Inr (okResponse, [25, 100], Inr ())
      \<and> 200 \<le> status okResponse \<and> status okResponse < 300"
    by (simp add: quietEnv_def axiosDefault_okResponse) (simp add: okResponse_def)
  from progress_by_segment [OF pos100, of ?e2 _ _ _ "''video.mp4''" okResponse "''https://r2/get''"
      okResponse "[25, 100]" "Inr ()" "''/tmp''"] d
  have "progressValues (snd (getAsFile ?e2 ''video.mp4'' ''https://r2/get'' ''/tmp''))
      = map (\<lambda>l. roundedPercent (of_nat 100) (of_nat l)) [25, 100]"
    by blast
  then have "progressValues (snd (getAsFile ?e2 ''video.mp4'' ''https://r2/get'' ''/tmp''))
      = [Some 25, Some 100]"
    by (simp add: percent_of_100)
  with a' b c show ?thesis
    by (simp add: sixParts_setup)
qed

text \<open>
  C2 as stated fails for the multi-part upload: the value reported when a part is
  complete comes from the bytes sent so far, the values reported while the next part is
  sent from the number of parts, and the second can be lower. For a file of 5 GiB and
  one byte in six parts, 20 is reported at the end of the first part and 17 at the start
  of the second.
\<close>

theorem progress_goes_down_between_parts:
  "fst (doMultiPartUpload sixParts ''/a/b/video.mp4'') = Inr ()
   \<and> progressValues (snd (doMultiPartUpload sixParts ''/a/b/video.mp4''))
     = map Some [0, 17, 20, 17, 33, 40, 33, 50, 60, 50, 67, 80, 67, 83, 100, 100, 100]
   \<and> \<not> sorted_wrt reportedLe (progressValues (snd (doMultiPartUpload sixParts ''/a/b/video.mp4'')))"
proof -
  let ?crsp = "okResponse\<lparr>data_urls := [''u0'', ''u1'', ''u2'', ''u3'', ''u4'', ''u5'']\<rparr>"
  have acc: "\<forall>q<length (data_urls ?crsp). accepted (snd (part_put sixParts (0 + q) (data_urls ?crsp ! q)))"
    using sixParts_hyps(4) by simp
  obtain tokens where "fst (uploadParts sixParts ''video.mp4'' ''video/mp4'' 5368709121
      (length (data_urls ?crsp)) (data_urls ?crsp) 0 0 5368709121 []) = Inr tokens"
    using uploadParts_accepts [OF acc] by blast
  then have "fst (doMultiPartUpload sixParts ''/a/b/video.mp4'')
      = fst (completeMultiPartUpload sixParts ''video.mp4'' tokens)"
    using doMultiPartUpload_unfold [OF sixParts_setup(1) sixParts_hyps(1-3)]
    by (simp add: sixParts_setup split: prod.splits sum.splits del: uploadParts.simps)
  then have "fst (doMultiPartUpload sixParts ''/a/b/video.mp4'') = Inr ()"
    by (simp add: completeMultiPartUpload_def sixParts_setup okResponse_def)
  then show ?thesis
    by (simp add: sixParts_values reportedLe_def)
qed

end
